theory Spec2Isabelle
  imports Main "HOL-Library.Sublist"
begin

section \<open>JavaScript strings and errors\<close>

text \<open>
  A JavaScript string is a sequence of UTF-16 code units. The embedding uses
  \<^typ>\<open>string\<close>: every \<^typ>\<open>char\<close> stands for one code unit in the range 0..255, so
  \<open>length\<close> counts what \<open>String.prototype.length\<close> counts on such strings.

  A thrown value is a \<open>js_error\<close>: the \<open>name\<close>, the \<open>message\<close> and, when the error
  has a \<open>cause\<close>, the cause's message (the three fields the catch blocks of the
  repository read).
\<close>

datatype js_error = JsError (err_name: string) (err_message: string) (err_cause_message: "string option")

definition Error :: "string \<Rightarrow> js_error" where
  \<comment> \<open>\<open>new Error(message)\<close>\<close>
  "Error msg = JsError ''Error'' msg None"

definition error_to_string :: "js_error \<Rightarrow> string" where
  \<comment> \<open>\<open>String(err)\<close>, that is \<open>Error.prototype.toString\<close>\<close>
  "error_to_string e =
     (if err_name e = [] then err_message e
      else if err_message e = [] then err_name e
      else err_name e @ '': '' @ err_message e)"

fun str_includes :: "string \<Rightarrow> string \<Rightarrow> bool" where
  \<comment> \<open>\<open>haystack.includes(needle)\<close>\<close>
  "str_includes [] needle = (needle = [])"
| "str_includes (c # cs) needle = (prefix needle (c # cs) \<or> str_includes cs needle)"

definition toLowerUnit :: "char \<Rightarrow> char" where
  \<comment> \<open>A-Z (65..90) and the Latin-1 capitals (192..222 without the multiplication sign 215)
     are moved 32 code units up; every other unit is kept\<close>
  "toLowerUnit c =
     (let n = of_char c :: nat
      in if (65 \<le> n \<and> n \<le> 90) \<or> (192 \<le> n \<and> n \<le> 222 \<and> n \<noteq> 215) then char_of (n + 32) else c)"

definition toLowerCase :: "string \<Rightarrow> string" where
  \<comment> \<open>\<open>s.toLowerCase()\<close> on code units 0..255\<close>
  "toLowerCase s = map toLowerUnit s"

definition isWhiteSpace :: "char \<Rightarrow> bool" where
  \<comment> \<open>the white space and line terminators of ECMAScript among the code units 0..255\<close>
  "isWhiteSpace c = (c \<in> set [CHR 0x09, CHR 0x0A, CHR 0x0B, CHR 0x0C, CHR 0x0D, CHR 0x20, CHR 0xA0])"

definition trim :: "string \<Rightarrow> string" where
  \<comment> \<open>\<open>s.trim()\<close>\<close>
  "trim s = rev (dropWhile isWhiteSpace (rev (dropWhile isWhiteSpace s)))"

section \<open>Bot-protection detection (lib/bot-protection.js)\<close>

definition DEFAULT_MARKERS :: "string list" where
  "DEFAULT_MARKERS =
     [''making sure you'' @ [CHR 0x27] @ ''re not a bot'',
      ''protected by anubis'',
      ''anubis uses a proof-of-work'',
      ''checking your browser'',
      ''just a moment'',
      ''cf-browser-verification'',
      ''enable javascript and cookies to continue'',
      ''attention required'',
      ''verify you are human'',
      ''unusual traffic'']"

definition page_haystack :: "string \<Rightarrow> string \<Rightarrow> string" where
  \<comment> \<open>the template literal \<open>`${t}\n${body}`\<close>: title, a line feed, the first 6000 units of the text\<close>
  "page_haystack title txt = toLowerCase title @ [CHR 0x0A] @ toLowerCase (take 6000 txt)"

definition isLikelyBotProtectionText :: "string \<Rightarrow> string \<Rightarrow> string list \<Rightarrow> bool" where
  "isLikelyBotProtectionText title txt markers =
     (let t = toLowerCase title;
          body = toLowerCase (take 6000 txt);
          haystack = t @ [CHR 0x0A] @ body
      in list_ex (\<lambda>m. str_includes haystack m) markers)"

subsection \<open>The page of the automation session\<close>

text \<open>
  A Playwright page is an external object. What it answers is given by the \<open>page\<close>
  record: the outcome of the navigation, of the \<open>k\<close>-th in-page read (\<open>page.evaluate\<close>:
  the document it sees, or the error it throws), of the \<open>k\<close>-th \<open>waitForTimeout\<close>, of
  \<open>page.title()\<close> and of \<open>page.content()\<close>. What the code has done to it so far is the
  \<open>page_state\<close>: the number of in-page reads, the pauses taken (in milliseconds, in
  order) and whether the page has been closed.
\<close>

record document =
  doc_title :: string
  body_innerText :: "string option"

record page =
  goto_error :: "js_error option"
  evaluate_result :: "nat \<Rightarrow> js_error + document"
  waitForTimeout_error :: "nat \<Rightarrow> js_error option"
  title_result :: "js_error + string"
  content_result :: "js_error + string"
  jitter :: nat
  elapsed :: nat

record page_state =
  evaluations :: nat
  timeouts :: "nat list"
  closed :: bool

definition fresh_page_state :: page_state where
  "fresh_page_state = \<lparr>evaluations = 0, timeouts = [], closed = False\<rparr>"

definition page_evaluate :: "page \<Rightarrow> page_state \<Rightarrow> (js_error + document) \<times> page_state" where
  "page_evaluate p s = (evaluate_result p (evaluations s), s\<lparr>evaluations := Suc (evaluations s)\<rparr>)"

definition page_waitForTimeout :: "page \<Rightarrow> nat \<Rightarrow> page_state \<Rightarrow> (js_error + unit) \<times> page_state" where
  "page_waitForTimeout p ms s =
     ((case waitForTimeout_error p (length (timeouts s)) of None \<Rightarrow> Inr () | Some e \<Rightarrow> Inl e),
      s\<lparr>timeouts := timeouts s @ [ms]\<rparr>)"

definition detect_in_page :: "document \<Rightarrow> string list \<Rightarrow> bool" where
  \<comment> \<open>the function \<open>isLikelyBotProtectionPage\<close> hands to \<open>page.evaluate\<close>\<close>
  "detect_in_page doc markersArg =
     (let title = toLowerCase (doc_title doc);
          txt = toLowerCase (take 6000 (case body_innerText doc of None \<Rightarrow> [] | Some t \<Rightarrow> t));
          haystack = title @ [CHR 0x0A] @ txt
      in list_ex (\<lambda>marker. str_includes haystack marker) markersArg)"

fun isLikelyBotProtectionPage_loop ::
  "nat \<Rightarrow> page \<Rightarrow> string list \<Rightarrow> page_state \<Rightarrow> (js_error + bool) \<times> page_state" where
  \<comment> \<open>the \<open>for\<close> loop with \<open>3 - attempt\<close> attempts left\<close>
  "isLikelyBotProtectionPage_loop 0 p markers s = (Inr False, s)"
| "isLikelyBotProtectionPage_loop (Suc attempts_left) p markers s =
     (case page_evaluate p s of
        (Inr doc, s1) \<Rightarrow> (Inr (detect_in_page doc markers), s1)
      | (Inl err, s1) \<Rightarrow>
          (let message = err_message err
           in if str_includes message ''Execution context was destroyed''
                 \<or> str_includes message ''Cannot find context''
              then isLikelyBotProtectionPage_loop attempts_left p markers
                     (snd (page_waitForTimeout p 250 s1))
              else (Inr False, s1)))"

definition isLikelyBotProtectionPage ::
  "page \<Rightarrow> string list \<Rightarrow> page_state \<Rightarrow> (js_error + bool) \<times> page_state" where
  "isLikelyBotProtectionPage p markers s = isLikelyBotProtectionPage_loop 3 p markers s"

definition context_torn_down :: "js_error \<Rightarrow> bool" where
  \<comment> \<open>the errors the loop retries: the page's script context went away mid-navigation\<close>
  "context_torn_down err \<longleftrightarrow>
     str_includes (err_message err) ''Execution context was destroyed''
     \<or> str_includes (err_message err) ''Cannot find context''"

definition challenge_document :: document where
  "challenge_document = \<lparr>doc_title = ''Just a moment...'', body_innerText = Some ''Checking your browser''\<rparr>"

definition closed_target_page :: page where
  \<comment> \<open>a page whose first read fails with an error that is not a context tear-down, and
     whose later reads would see a challenge\<close>
  "closed_target_page =
     \<lparr>goto_error = None,
      evaluate_result = (\<lambda>k. if k = 0 then Inl (Error ''Target page, context or browser has been closed'')
                             else Inr challenge_document),
      waitForTimeout_error = (\<lambda>k. None),
      title_result = Inr ''Just a moment...'',
      content_result = Inr [],
      jitter = 0,
      elapsed = 0\<rparr>"

definition navigating_page :: page where
  \<comment> \<open>a page whose script context is torn down at every read\<close>
  "navigating_page =
     \<lparr>goto_error = None,
      evaluate_result = (\<lambda>k. Inl (Error ''page.evaluate: Execution context was destroyed, most likely because of a navigation'')),
      waitForTimeout_error = (\<lambda>k. None),
      title_result = Inr [],
      content_result = Inr [],
      jitter = 0,
      elapsed = 0\<rparr>"

definition redirecting_page :: page where
  \<comment> \<open>a page whose script context is torn down at the first read and that shows a
     challenge from the second read on\<close>
  "redirecting_page =
     \<lparr>goto_error = None,
      evaluate_result = (\<lambda>k. if k = 0 then Inl (Error ''Cannot find context with specified id'')
                             else Inr challenge_document),
      waitForTimeout_error = (\<lambda>k. None),
      title_result = Inr ''Just a moment...'',
      content_result = Inr [],
      jitter = 0,
      elapsed = 0\<rparr>"

section \<open>Port negotiation (lib/cdp.js)\<close>

text \<open>
  The operating system is the \<open>port_env\<close>: which ports of the loopback interface a
  server can be bound to at the moment (\<open>bindable\<close>), and what binding port 0 gives:
  an \<open>error\<close> event, or the address the server reports (its port, \<open>None\<close> when
  \<open>server.address()\<close> is not an object), and the error of closing that server, if any.
  Ports are integers (\<open>Number.isInteger\<close> holds of every \<^typ>\<open>int\<close>).
\<close>

record port_env =
  bindable :: "int \<Rightarrow> bool"
  listen_ephemeral :: "js_error + int option"
  close_ephemeral :: "js_error option"

definition getEphemeralPort :: "port_env \<Rightarrow> js_error + int" where
  "getEphemeralPort env =
     (case listen_ephemeral env of
        Inl err \<Rightarrow> Inl err
      | Inr address \<Rightarrow>
          (case close_ephemeral env of
             Some err \<Rightarrow> Inl err
           | None \<Rightarrow>
               (case address of
                  None \<Rightarrow> Inl (Error ''Could not determine ephemeral port'')
                | Some port \<Rightarrow>
                    if port = 0 then Inl (Error ''Could not determine ephemeral port'')
                    else Inr port)))"

definition isPortAvailable :: "port_env \<Rightarrow> int \<Rightarrow> bool" where
  "isPortAvailable env port =
     (if port \<le> 0 \<or> port > 65535 then False else bindable env port)"

function chooseAvailablePort_from :: "port_env \<Rightarrow> int \<Rightarrow> int \<Rightarrow> js_error + int" where
  \<comment> \<open>the \<open>for\<close> loop from \<open>offset\<close> on, and the fallback after it\<close>
  "chooseAvailablePort_from env preferredPort offset =
     (if offset \<le> 25 then
        (let candidate = preferredPort + offset
         in if isPortAvailable env candidate then Inr candidate
            else chooseAvailablePort_from env preferredPort (offset + 1))
      else getEphemeralPort env)"
  by pat_completeness auto
termination
  by (relation "measure (\<lambda>(env, preferredPort, offset). nat (26 - offset))") auto

declare chooseAvailablePort_from.simps [simp del]

definition chooseAvailablePort :: "port_env \<Rightarrow> int \<Rightarrow> js_error + int" where
  "chooseAvailablePort env preferredPort =
     (if isPortAvailable env preferredPort then Inr preferredPort
      else chooseAvailablePort_from env preferredPort 1)"

definition os_assigns_free_port :: "port_env \<Rightarrow> bool" where
  \<comment> \<open>the port the operating system hands out for port 0 is one it could bind\<close>
  "os_assigns_free_port env \<longleftrightarrow>
     (case listen_ephemeral env of Inr (Some port) \<Rightarrow> port = 0 \<or> isPortAvailable env port | _ \<Rightarrow> True)"

definition busy_daemon_host :: port_env where
  \<comment> \<open>ports 9223 to 9225 are taken; the operating system would hand out 49152\<close>
  "busy_daemon_host =
     \<lparr>bindable = (\<lambda>port. port \<notin> {9223, 9224, 9225}),
      listen_ephemeral = Inr (Some 49152),
      close_ephemeral = None\<rparr>"

definition crowded_host :: port_env where
  \<comment> \<open>only ports from 40000 on can be bound; the operating system hands out 49152\<close>
  "crowded_host =
     \<lparr>bindable = (\<lambda>port. 40000 \<le> port),
      listen_ephemeral = Inr (Some 49152),
      close_ephemeral = None\<rparr>"

definition exhausted_host :: port_env where
  \<comment> \<open>no port can be bound, port 0 included\<close>
  "exhausted_host =
     \<lparr>bindable = (\<lambda>port. False),
      listen_ephemeral = Inl (JsError ''Error'' ''listen EADDRINUSE: address already in use 127.0.0.1'' None),
      close_ephemeral = None\<rparr>"

section \<open>Content pipeline (lib/extract.js)\<close>

text \<open>
  JSDOM, Readability and Turndown are external collaborators. The \<open>extract_env\<close> gives
  what they answer: the document JSDOM builds from the markup (or the error of the
  constructor, for the first call and for the second call with
  \<open>runScripts: "outside-only"\<close>), and the markdown Turndown renders from markup (or the
  error it throws). A document carries what Readability makes of it (an error, \<open>null\<close> or
  an article), its title and its body element, if any.
\<close>

record article =
  article_title :: string
  article_content :: string
  article_textContent :: string

record body_element =
  innerHTML :: string
  textContent :: string

record dom_document =
  readability_parse :: "js_error + article option"
  document_title :: string
  document_body :: "body_element option"

record extract_env =
  jsdom :: "string \<Rightarrow> string \<Rightarrow> js_error + dom_document"
  jsdom_outside_only :: "string \<Rightarrow> string \<Rightarrow> js_error + dom_document"
  turndown :: "string \<Rightarrow> js_error + string"

record parsed_content =
  parsed_title :: string
  parsed_content :: string

fun lastIndexOf_from :: "string \<Rightarrow> string \<Rightarrow> nat \<Rightarrow> int" where
  \<comment> \<open>the search of \<open>lastIndexOf\<close>: from index \<open>k\<close> down to 0, \<open>-1\<close> when nothing matches\<close>
  "lastIndexOf_from s searchString 0 = (if prefix searchString s then 0 else - 1)"
| "lastIndexOf_from s searchString (Suc k) =
     (if prefix searchString (drop (Suc k) s) then int (Suc k)
      else lastIndexOf_from s searchString k)"

definition lastIndexOf :: "string \<Rightarrow> string \<Rightarrow> nat \<Rightarrow> int" where
  \<comment> \<open>\<open>s.lastIndexOf(searchString, position)\<close>: the greatest index at most \<open>position\<close>
     at which \<open>searchString\<close> starts\<close>
  "lastIndexOf s searchString position =
     (if length s < length searchString then - 1
      else lastIndexOf_from s searchString (min position (length s - length searchString)))"

definition paragraph_break :: string where
  "paragraph_break = [CHR 0x0A, CHR 0x0A]"

definition truncation_marker :: string where
  "truncation_marker = [CHR 0x0A, CHR 0x0A] @ ''[... truncated, use --full for complete content ...]''"

definition truthy :: "string \<Rightarrow> bool" where
  \<comment> \<open>a string is truthy when it is not empty\<close>
  "truthy s \<longleftrightarrow> s \<noteq> []"

definition or_else :: "string \<Rightarrow> string \<Rightarrow> string" where
  \<comment> \<open>\<open>a || b\<close> on strings\<close>
  "or_else a b = (if truthy a then a else b)"

definition article_of :: "dom_document \<Rightarrow> article option" where
  \<comment> \<open>lines 13-19: \<open>article\<close> stays \<open>null\<close> when Readability throws\<close>
  "article_of document = (case readability_parse document of Inl err \<Rightarrow> None | Inr a \<Rightarrow> a)"

definition markdown_of :: "extract_env \<Rightarrow> dom_document \<Rightarrow> string" where
  \<comment> \<open>lines 21-33: the \<open>content\<close> before it is trimmed\<close>
  "markdown_of env document =
     (let article = article_of document;
          fallback = or_else (case article of None \<Rightarrow> [] | Some a \<Rightarrow> article_textContent a)
                       (or_else (case document_body document of None \<Rightarrow> [] | Some b \<Rightarrow> textContent b) [])
      in if (case article of None \<Rightarrow> False | Some a \<Rightarrow> truthy (article_content a)) then
           (case turndown env (article_content (the article)) of
              Inr markdown \<Rightarrow> markdown
            | Inl err \<Rightarrow> fallback)
         else
           (case document_body document of
              None \<Rightarrow> []
            | Some b \<Rightarrow>
                (case turndown env (innerHTML b) of
                   Inr markdown \<Rightarrow> markdown
                 | Inl err \<Rightarrow> fallback)))"

definition cut_content :: "bool \<Rightarrow> string \<Rightarrow> string" where
  \<comment> \<open>lines 37-44: the truncation policy on the trimmed content\<close>
  "cut_content truncate' finalContent =
     (if truncate' \<and> length finalContent > 2000 then
        (let cutPoint = lastIndexOf finalContent paragraph_break 2000
         in if cutPoint > 1000 then take (nat cutPoint) finalContent @ truncation_marker
            else take 2000 finalContent @ truncation_marker)
      else finalContent)"

definition render_document :: "extract_env \<Rightarrow> dom_document \<Rightarrow> bool \<Rightarrow> parsed_content" where
  \<comment> \<open>lines 11-50: from the document to the result\<close>
  "render_document env document truncate' =
     \<lparr>parsed_title =
        or_else (case article_of document of None \<Rightarrow> [] | Some a \<Rightarrow> article_title a)
          (or_else (document_title document) []),
      parsed_content = cut_content truncate' (trim (markdown_of env document))\<rparr>"

definition parseHtmlToContent ::
  "extract_env \<Rightarrow> string \<Rightarrow> string \<Rightarrow> bool \<Rightarrow> js_error + parsed_content" where
  "parseHtmlToContent env html url truncate' =
     (case jsdom env html url of
        Inr document \<Rightarrow> Inr (render_document env document truncate')
      | Inl err \<Rightarrow>
          (case jsdom_outside_only env html url of
             Inr document \<Rightarrow> Inr (render_document env document truncate')
           | Inl err2 \<Rightarrow> Inl err2))"

definition finalContent_of :: "extract_env \<Rightarrow> string \<Rightarrow> string \<Rightarrow> js_error + string" where
  \<comment> \<open>the rendered content of a page: \<open>content.trim()\<close> of line 35, before any cut\<close>
  "finalContent_of env html url =
     (case jsdom env html url of
        Inr document \<Rightarrow> Inr (trim (markdown_of env document))
      | Inl err \<Rightarrow>
          (case jsdom_outside_only env html url of
             Inr document \<Rightarrow> Inr (trim (markdown_of env document))
           | Inl err2 \<Rightarrow> Inl err2))"

definition break_at :: "string \<Rightarrow> nat \<Rightarrow> bool" where
  \<comment> \<open>a paragraph break (two line feeds) starts at offset \<open>i\<close>\<close>
  "break_at s i \<longleftrightarrow> prefix paragraph_break (drop i s)"

definition answers_for :: "string \<Rightarrow> dom_document \<Rightarrow> (string \<times> string) list \<Rightarrow> extract_env" where
  \<comment> \<open>the collaborators on one page: the document JSDOM builds from the page's markup,
     and the markdown Turndown renders from the listed markup. The fixture has no answer
     for any other markup (it answers with an error); it is used on its page only\<close>
  "answers_for html document renderings =
     \<lparr>jsdom = (\<lambda>markup url. if markup = html then Inr document
                              else Inl (Error ''markup outside the fixture'')),
      jsdom_outside_only = (\<lambda>markup url. if markup = html then Inr document
                                           else Inl (Error ''markup outside the fixture'')),
      turndown = (\<lambda>markup. case map_of renderings markup of
                              Some markdown \<Rightarrow> Inr markdown
                            | None \<Rightarrow> Inl (Error ''markup outside the fixture''))\<rparr>"

definition article_markup :: "string \<Rightarrow> string" where
  \<comment> \<open>the content of the article Readability returns when it keeps the whole body: the
     body's markup inside its page element\<close>
  "article_markup body_markup =
     ''<div id=\"readability-page-1\" class=\"page\">'' @ body_markup @ ''</div>''"

definition readable_document :: "string \<Rightarrow> string \<Rightarrow> string \<Rightarrow> dom_document" where
  \<comment> \<open>a document with a title, whose body Readability keeps whole as the article\<close>
  "readable_document title_text body_markup body_text =
     \<lparr>readability_parse =
        Inr (Some \<lparr>article_title = title_text, article_content = article_markup body_markup,
                   article_textContent = body_text\<rparr>),
      document_title = title_text,
      document_body = Some \<lparr>innerHTML = body_markup, textContent = body_text\<rparr>\<rparr>"

definition readable_page_env ::
  "string \<Rightarrow> string \<Rightarrow> string \<Rightarrow> string \<Rightarrow> string \<Rightarrow> extract_env" where
  \<comment> \<open>the collaborators on the page with markup \<open>html\<close>: its title, the markup and the
     text of its body, and the markdown of the body (the body's markup and the article's
     content render to the same markdown: the page element adds nothing)\<close>
  "readable_page_env html title_text body_markup body_text markdown =
     answers_for html (readable_document title_text body_markup body_text)
       [(article_markup body_markup, markdown), (body_markup, markdown)]"

definition unreadable_page_env ::
  "string \<Rightarrow> string \<Rightarrow> string \<Rightarrow> string \<Rightarrow> string \<Rightarrow> extract_env" where
  \<comment> \<open>the same page when Readability finds no article in it (\<open>parse()\<close> gives \<open>null\<close>)\<close>
  "unreadable_page_env html title_text body_markup body_text markdown =
     answers_for html
       \<lparr>readability_parse = Inr None, document_title = title_text,
        document_body = Some \<lparr>innerHTML = body_markup, textContent = body_text\<rparr>\<rparr>
       [(body_markup, markdown)]"

definition html_page :: "string \<Rightarrow> string \<Rightarrow> string" where
  \<comment> \<open>the markup of a page, as the repository's tests write it\<close>
  "html_page title_text body_markup =
     ''<!doctype html><html><head><title>'' @ title_text @ ''</title></head><body>''
       @ body_markup @ ''</body></html>''"

definition p_element :: "string \<Rightarrow> string" where
  \<comment> \<open>the markup of a paragraph of text\<close>
  "p_element s = ''<p>'' @ s @ ''</p>''"

definition long_text :: string where
  \<comment> \<open>the body of the repository's truncation test: 4000 times the letter x\<close>
  "long_text = replicate 4000 (CHR ''x'')"

definition two_paragraphs :: string where
  \<comment> \<open>two paragraphs of 1500 letters each\<close>
  "two_paragraphs = replicate 1500 (CHR ''a'') @ paragraph_break @ replicate 1500 (CHR ''b'')"

definition long_page :: string where
  \<comment> \<open>the page of the repository's truncation tests\<close>
  "long_page = html_page ''Long'' (p_element long_text)"

definition long_page_env :: extract_env where
  \<comment> \<open>one paragraph of letters renders to the letters\<close>
  "long_page_env = readable_page_env long_page ''Long'' (p_element long_text) long_text long_text"

definition two_paragraph_page :: string where
  "two_paragraph_page =
     html_page ''Long'' (p_element (replicate 1500 (CHR ''a'')) @ p_element (replicate 1500 (CHR ''b'')))"

definition two_paragraph_page_env :: extract_env where
  \<comment> \<open>two paragraphs render to their texts with a blank line between them\<close>
  "two_paragraph_page_env =
     readable_page_env two_paragraph_page ''Long''
       (p_element (replicate 1500 (CHR ''a'')) @ p_element (replicate 1500 (CHR ''b'')))
       (replicate 1500 (CHR ''a'') @ replicate 1500 (CHR ''b''))
       two_paragraphs"

definition hello_page :: string where
  \<comment> \<open>a small page, as the browser serialises it\<close>
  "hello_page = ''<!DOCTYPE html><html><head><title>Hello</title></head><body><p>Hello World</p></body></html>''"

definition hello_page_env :: extract_env where
  "hello_page_env = readable_page_env hello_page ''Hello'' (p_element ''Hello World'') ''Hello World'' ''Hello World''"

definition quoting_text :: string where
  \<comment> \<open>a text that quotes the tool's own truncation notice after a blank line\<close>
  "quoting_text = ''The tool ends a cut page with:'' @ truncation_marker"

definition code_fence :: string where
  \<comment> \<open>the fence of a code block in markdown (\<open>codeBlockStyle: "fenced"\<close>): three backticks\<close>
  "code_fence = [CHR 0x60, CHR 0x60, CHR 0x60]"

definition fenced :: "string \<Rightarrow> string" where
  \<comment> \<open>the markdown of a preformatted code block: its text as it is, between two fences\<close>
  "fenced code = code_fence @ [CHR 0x0A] @ code @ [CHR 0x0A] @ code_fence"

definition notice_page :: string where
  \<comment> \<open>a page that shows \<open>quoting_text\<close> as preformatted code\<close>
  "notice_page = html_page ''Notice'' (''<pre><code>'' @ quoting_text @ ''</code></pre>'')"

definition notice_page_env :: extract_env where
  \<comment> \<open>preformatted code keeps its line feeds and is not escaped\<close>
  "notice_page_env =
     readable_page_env notice_page ''Notice'' (''<pre><code>'' @ quoting_text @ ''</code></pre>'')
       quoting_text (fenced quoting_text)"

section \<open>Search (lib/search.js)\<close>

text \<open>
  A requested result count is an integer-valued JavaScript number: \<^typ>\<open>int\<close>.
\<close>

record search_result =
  result_title :: string
  result_link :: string
  result_snippet :: string

definition digit_unit :: "nat \<Rightarrow> char" where
  "digit_unit d = char_of (48 + d)"

function nat_to_string :: "nat \<Rightarrow> string" where
  "nat_to_string n =
     (if n < 10 then [digit_unit n] else nat_to_string (n div 10) @ [digit_unit (n mod 10)])"
  by pat_completeness auto
termination
  by (relation "measure (\<lambda>n. n)") auto

declare nat_to_string.simps [simp del]

definition number_to_string :: "int \<Rightarrow> string" where
  \<comment> \<open>an integer in a template literal\<close>
  "number_to_string i = (if i < 0 then CHR ''-'' # nat_to_string (nat (- i)) else nat_to_string (nat i))"

subsection \<open>The secondary engine\<close>

text \<open>
  \<open>cheerio\<close>, \<open>fetch\<close> and the URI functions are external. An \<open>http_response\<close> is what
  \<open>httpFetch\<close> resolves to. An \<open>html_document\<close> is what cheerio selects from the markup:
  the elements matched by \<open>.result\<close>, in document order (each with the text and the
  \<open>href\<close> of its first \<open>.result__a\<close> descendant and the text of its first
  \<open>.result__snippet\<close> descendant), and the elements matched by \<open>a.result-link\<close> (each with
  its text, its \<open>href\<close> and the text of the \<open>.result-snippet\<close> cell of the next row).
  The request headers are a constant of the caller; they are part of what \<open>httpFetch\<close>
  answers.
\<close>

record http_response =
  status :: int
  ok :: bool
  statusText :: string
  content_type :: "string option"
  response_text :: "js_error + string"

record result_element =
  result_a_text :: string
  result_a_href :: "string option"
  result_snippet_text :: string

record result_link_element =
  link_text :: string
  link_href :: "string option"
  link_snippet_text :: string

record html_document =
  result_elements :: "result_element list"
  result_link_elements :: "result_link_element list"

record web =
  httpFetch :: "string \<Rightarrow> js_error + http_response"
  cheerio_load :: "string \<Rightarrow> html_document"
  encodeURIComponent :: "string \<Rightarrow> string"
  decodeURIComponent :: "string \<Rightarrow> js_error + string"

fun match_uddg :: "string \<Rightarrow> string option" where
  \<comment> \<open>\<open>href.match(/uddg=([^&]+)/)\<close>: the capture of the leftmost match\<close>
  "match_uddg [] = None"
| "match_uddg (c # cs) =
     (if prefix ''uddg='' (c # cs) \<and> takeWhile (\<lambda>x. x \<noteq> CHR ''&'') (drop 5 (c # cs)) \<noteq> []
      then Some (takeWhile (\<lambda>x. x \<noteq> CHR ''&'') (drop 5 (c # cs)))
      else match_uddg cs)"

fun extractDuckDuckGoResults_each ::
  "web \<Rightarrow> result_element list \<Rightarrow> int \<Rightarrow> search_result list \<Rightarrow> js_error + search_result list" where
  \<comment> \<open>the callback of \<open>$(".result").each\<close> over the elements left, \<open>results\<close> being the
     array built so far\<close>
  "extractDuckDuckGoResults_each w [] num results = Inr results"
| "extractDuckDuckGoResults_each w (el # els) num results =
     (if int (length results) \<ge> num then Inr results
      else
        (let title = trim (result_a_text el);
             href = result_a_href el;
             snippet = trim (result_snippet_text el);
             decoded =
               (case href of
                  None \<Rightarrow> Inr None
                | Some h \<Rightarrow>
                    if truthy h \<and> str_includes h ''uddg='' then
                      (case match_uddg h of
                         None \<Rightarrow> Inr (Some h)
                       | Some captured \<Rightarrow>
                           (case decodeURIComponent w captured of
                              Inl err \<Rightarrow> Inl err
                            | Inr destination \<Rightarrow> Inr (Some destination)))
                    else Inr (Some h))
         in case decoded of
              Inl err \<Rightarrow> Inl err
            | Inr link \<Rightarrow>
                if truthy title
                   \<and> (case link of None \<Rightarrow> False
                       | Some l \<Rightarrow> truthy l \<and> \<not> str_includes l ''duckduckgo.com'')
                then extractDuckDuckGoResults_each w els num
                       (results @ [\<lparr>result_title = title, result_link = the link, result_snippet = snippet\<rparr>])
                else extractDuckDuckGoResults_each w els num results))"

definition extractDuckDuckGoResults :: "web \<Rightarrow> string \<Rightarrow> int \<Rightarrow> js_error + search_result list" where
  "extractDuckDuckGoResults w html num =
     extractDuckDuckGoResults_each w (result_elements (cheerio_load w html)) num []"

fun searchDuckDuckGoLite_each ::
  "result_link_element list \<Rightarrow> int \<Rightarrow> search_result list \<Rightarrow> search_result list" where
  \<comment> \<open>the callback of \<open>$("a.result-link").each\<close>\<close>
  "searchDuckDuckGoLite_each [] num results = results"
| "searchDuckDuckGoLite_each (el # els) num results =
     (if int (length results) \<ge> num then results
      else
        (let title = trim (link_text el);
             link = link_href el;
             snippet = trim (link_snippet_text el)
         in if truthy title \<and> (case link of None \<Rightarrow> False | Some l \<Rightarrow> truthy l)
            then searchDuckDuckGoLite_each els num
                   (results @ [\<lparr>result_title = title, result_link = the link,
                                result_snippet = or_else snippet []\<rparr>])
            else searchDuckDuckGoLite_each els num results))"

definition checked_response :: "web \<Rightarrow> string \<Rightarrow> js_error + string" where
  \<comment> \<open>the request of both secondary-engine functions: fetch, the two status checks,
     \<open>response.text()\<close>\<close>
  "checked_response w url =
     (case httpFetch w url of
        Inl err \<Rightarrow> Inl err
      | Inr response \<Rightarrow>
          if status response = 202 then Inl (Error ''DuckDuckGo returned 202 (blocked)'')
          else if \<not> ok response then
            Inl (Error (''Search failed: '' @ number_to_string (status response) @ '' '' @ statusText response))
          else response_text response)"

definition searchDuckDuckGoLite :: "web \<Rightarrow> string \<Rightarrow> int \<Rightarrow> js_error + search_result list" where
  "searchDuckDuckGoLite w query num =
     (let url = ''https://duckduckgo.com/lite/?q='' @ encodeURIComponent w query
      in case checked_response w url of
           Inl err \<Rightarrow> Inl err
         | Inr html \<Rightarrow>
             Inr (searchDuckDuckGoLite_each (result_link_elements (cheerio_load w html)) num []))"

definition searchDuckDuckGo :: "web \<Rightarrow> string \<Rightarrow> int \<Rightarrow> js_error + search_result list" where
  "searchDuckDuckGo w query num =
     (let url = ''https://html.duckduckgo.com/html/?q='' @ encodeURIComponent w query
      in case checked_response w url of
           Inl err \<Rightarrow> Inl err
         | Inr html \<Rightarrow>
             (case extractDuckDuckGoResults w html num of
                Inl err \<Rightarrow> Inl err
              | Inr results \<Rightarrow>
                  if length results = 0 then searchDuckDuckGoLite w query num
                  else Inr results))"

subsection \<open>The primary engine\<close>

text \<open>
  What the browser session shows for a results URL is a \<open>results_page\<close>: the error of
  \<open>context.newPage()\<close>, if any; the first error of lines 79-103 (loading the page, the
  pauses, the consent interstitial, waiting for the body), if any; for every frame what
  \<open>frame.evaluate(extractResultsFromDocument)\<close> gives (the items, or an error); what the
  diagnostics read gives; and the URL the page ends on.
\<close>

record diagnostics =
  diag_title :: string
  diag_text :: string
  hasCaptcha :: bool

record results_page =
  newPage_error :: "js_error option"
  navigation_error :: "js_error option"
  frame_results :: "(js_error + search_result list) list"
  diagnostics_result :: "js_error + diagnostics"
  page_url :: string

definition blockedSignals :: "string list" where
  "blockedSignals = [''unusual traffic'', ''before you continue'', ''sorry'', ''detected'', ''our systems'']"

definition searchGoogleFromContext ::
  "(string \<Rightarrow> results_page) \<Rightarrow> web \<Rightarrow> string \<Rightarrow> int \<Rightarrow> js_error + search_result list" where
  "searchGoogleFromContext browser w query num =
     (let clampedNum = max 1 (min num 20);
          searchUrl = ''https://www.google.com/search?q='' @ encodeURIComponent w query
                        @ ''&num='' @ number_to_string clampedNum @ ''&hl=en&gl=us&pws=0&safe=off'';
          page = browser searchUrl
      in case newPage_error page of
           Some err \<Rightarrow> Inl err
         | None \<Rightarrow>
             (case navigation_error page of
                Some err \<Rightarrow> Inl err
              | None \<Rightarrow>
                  (let results = concat (map (\<lambda>frameResults.
                                    case frameResults of Inl err \<Rightarrow> [] | Inr items \<Rightarrow> items)
                                  (frame_results page))
                   in if length results = 0 then
                        (case diagnostics_result page of
                           Inl err \<Rightarrow> Inl err
                         | Inr d \<Rightarrow>
                             if hasCaptcha d
                                \<or> list_ex (\<lambda>signal. str_includes (toLowerCase (diag_text d)) signal)
                                     blockedSignals
                             then Inl (Error (''Google blocked automated access (''
                                              @ or_else (diag_title d) (page_url page) @ '')''))
                             else Inr (take (nat clampedNum) results))
                      else Inr (take (nat clampedNum) results))))"

subsection \<open>The orchestrator\<close>

text \<open>
  \<open>searchWebFromContext\<close> returns its result (or the error it throws) together with the
  messages it hands to \<open>log\<close>, in order. \<open>error.message\<close> is read off the \<open>js_error\<close>.
\<close>

definition searchWebFromContext ::
  "(string \<Rightarrow> results_page) \<Rightarrow> web \<Rightarrow> string \<Rightarrow> int \<Rightarrow> (js_error + search_result list) \<times> string list" where
  "searchWebFromContext browser w query numResults =
     (let (results, log1) =
            (case searchGoogleFromContext browser w query numResults of
               Inr found \<Rightarrow> (found, [])
             | Inl err \<Rightarrow> ([], [''Google search failed: '' @ err_message err]))
      in if length results = 0 then
           (let log2 = log1 @ [''Google returned no results. Falling back to DuckDuckGo...'']
            in case searchDuckDuckGo w query numResults of
                 Inr found \<Rightarrow> (Inr found, log2)
               | Inl err \<Rightarrow> (Inr results, log2 @ [''DuckDuckGo search failed: '' @ err_message err]))
         else (Inr results, log1))"

definition searchWebOneShot_search ::
  "(string \<Rightarrow> results_page) \<Rightarrow> web \<Rightarrow> string \<Rightarrow> int \<Rightarrow> (js_error + search_result list) \<times> string list" where
  \<comment> \<open>the search of \<open>searchWebOneShot\<close> (the command line without the daemon), once its
     session is up: the count is clamped before the orchestrator is called and the list is
     sliced after it\<close>
  "searchWebOneShot_search browser w query num =
     (let clampedNum = max 1 (min num 20)
      in case searchWebFromContext browser w query clampedNum of
           (Inr results, logged) \<Rightarrow> (Inr (take (nat clampedNum) results), logged)
         | (Inl err, logged) \<Rightarrow> (Inl err, logged))"

subsection \<open>Sample sessions and pages\<close>

definition hex_digit :: "char \<Rightarrow> nat option" where
  "hex_digit c = map_of (zip ''0123456789abcdef'' [0, 1, 2, 3, 4, 5, 6, 7, 8, 9, 10, 11, 12, 13, 14, 15])
                   (toLowerUnit c)"

fun ascii_decodeURIComponent :: "string \<Rightarrow> js_error + string" where
  \<comment> \<open>\<open>decodeURIComponent\<close> on strings whose escapes are ASCII characters: an escape that
     is malformed (or not ASCII) is answered with the \<open>URIError\<close>\<close>
  "ascii_decodeURIComponent [] = Inr []"
| "ascii_decodeURIComponent (c # cs) =
     (if c = CHR ''%'' then
        (case cs of
           h1 # h2 # rest \<Rightarrow>
             (case (hex_digit h1, hex_digit h2) of
                (Some a, Some b) \<Rightarrow>
                  if 16 * a + b < 128 then
                    (case ascii_decodeURIComponent rest of
                       Inl err \<Rightarrow> Inl err
                     | Inr decoded \<Rightarrow> Inr (char_of (16 * a + b) # decoded))
                  else Inl (JsError ''URIError'' ''URI malformed'' None)
              | _ \<Rightarrow> Inl (JsError ''URIError'' ''URI malformed'' None))
         | _ \<Rightarrow> Inl (JsError ''URIError'' ''URI malformed'' None))
      else
        (case ascii_decodeURIComponent cs of
           Inl err \<Rightarrow> Inl err
         | Inr decoded \<Rightarrow> Inr (c # decoded)))"

definition captcha_page :: results_page where
  \<comment> \<open>the primary engine answers with its "unusual traffic" interstitial\<close>
  "captcha_page =
     \<lparr>newPage_error = None,
      navigation_error = None,
      frame_results = [Inr []],
      diagnostics_result =
        Inr \<lparr>diag_title = ''Sorry...'',
             diag_text = ''Our systems have detected unusual traffic from your computer network.'',
             hasCaptcha = True\<rparr>,
      page_url = ''https://www.google.com/sorry/index''\<rparr>"

definition blocked_browser :: "string \<Rightarrow> results_page" where
  "blocked_browser searchUrl = captcha_page"

definition sample_results :: "search_result list" where
  "sample_results =
     [\<lparr>result_title = ''Example Domain'', result_link = ''https://example.com/'',
       result_snippet = ''This domain is for use in illustrative examples.''\<rparr>]"

definition answering_browser :: "string \<Rightarrow> results_page" where
  \<comment> \<open>the primary engine answers with one result\<close>
  "answering_browser searchUrl =
     \<lparr>newPage_error = None,
      navigation_error = None,
      frame_results = [Inr sample_results],
      diagnostics_result = Inr \<lparr>diag_title = ''q - Google Search'', diag_text = [], hasCaptcha = False\<rparr>,
      page_url = searchUrl\<rparr>"

definition ok_response :: "string \<Rightarrow> http_response" where
  "ok_response body =
     \<lparr>status = 200, ok = True, statusText = ''OK'',
      content_type = Some ''text/html; charset=utf-8'', response_text = Inr body\<rparr>"

definition throttled_web :: web where
  \<comment> \<open>the secondary engine answers every request with status 202\<close>
  "throttled_web =
     \<lparr>httpFetch = (\<lambda>url. Inr \<lparr>status = 202, ok = True, statusText = ''Accepted'',
                                content_type = Some ''text/html'', response_text = Inr []\<rparr>),
      cheerio_load = (\<lambda>html. \<lparr>result_elements = [], result_link_elements = []\<rparr>),
      encodeURIComponent = (\<lambda>s. s),
      decodeURIComponent = ascii_decodeURIComponent\<rparr>"

definition test_listing :: "result_element list" where
  \<comment> \<open>the listing of the repository's extraction test, one item per link, and an item
     that links back to the engine\<close>
  "test_listing =
     [\<lparr>result_a_text = ''Example Title'', result_a_href = Some ''https://example.com/page'',
       result_snippet_text = ''Some snippet text that is long enough.''\<rparr>,
      \<lparr>result_a_text = ''Encoded Link'', result_a_href = Some ''/l/?uddg=https%3A%2F%2Fexample.org%2Ffoo&rut=abc'',
       result_snippet_text = []\<rparr>,
      \<lparr>result_a_text = ''More results'', result_a_href = Some ''https://duckduckgo.com/html/?q=more'',
       result_snippet_text = []\<rparr>]"

definition listing_web :: web where
  \<comment> \<open>the secondary engine's full markup endpoint answers with \<open>test_listing\<close>\<close>
  "listing_web =
     \<lparr>httpFetch = (\<lambda>url. Inr (ok_response ''full'')),
      cheerio_load = (\<lambda>html. \<lparr>result_elements = test_listing, result_link_elements = []\<rparr>),
      encodeURIComponent = (\<lambda>s. s),
      decodeURIComponent = ascii_decodeURIComponent\<rparr>"

definition wrapped_link :: result_link_element where
  "wrapped_link =
     \<lparr>link_text = ''Encoded Link'',
      link_href = Some ''//duckduckgo.com/l/?uddg=https%3A%2F%2Fexample.org%2Ffoo&rut=abc'',
      link_snippet_text = ''Some snippet''\<rparr>"

definition lite_web :: web where
  \<comment> \<open>the full markup endpoint lists nothing; the lightweight endpoint lists one item
     whose link is a redirect wrapper\<close>
  "lite_web =
     \<lparr>httpFetch = (\<lambda>url. Inr (ok_response (if prefix ''https://duckduckgo.com/lite/'' url then ''lite'' else ''full''))),
      cheerio_load = (\<lambda>html. \<lparr>result_elements = [],
                               result_link_elements = (if html = ''lite'' then [wrapped_link] else [])\<rparr>),
      encodeURIComponent = (\<lambda>s. s),
      decodeURIComponent = ascii_decodeURIComponent\<rparr>"

definition throttled_response :: http_response where
  \<comment> \<open>the answer of an endpoint that throttles: status 202, which \<open>fetch\<close> counts as ok\<close>
  "throttled_response =
     \<lparr>status = 202, ok = True, statusText = ''Accepted'',
      content_type = Some ''text/html'', response_text = Inr []\<rparr>"

definition direct_link :: result_link_element where
  "direct_link =
     \<lparr>link_text = ''Example Domain'', link_href = Some ''https://example.com/'',
      link_snippet_text = ''This domain is for use in illustrative examples.''\<rparr>"

definition lite_listing_web :: "http_response \<Rightarrow> web" where
  \<comment> \<open>the lightweight endpoint answers with a page that lists one item; the full markup
     endpoint answers with the given response, and its page lists nothing\<close>
  "lite_listing_web full_response =
     \<lparr>httpFetch = (\<lambda>url. if prefix ''https://duckduckgo.com/lite/'' url
                           then Inr (ok_response ''lite'') else Inr full_response),
      cheerio_load = (\<lambda>html. \<lparr>result_elements = [],
                               result_link_elements = (if html = ''lite'' then [direct_link] else [])\<rparr>),
      encodeURIComponent = (\<lambda>s. s),
      decodeURIComponent = ascii_decodeURIComponent\<rparr>"

definition external_element :: result_element where
  "external_element =
     \<lparr>result_a_text = ''Example Title'', result_a_href = Some ''https://example.com/page'',
      result_snippet_text = []\<rparr>"

definition external_item :: search_result where
  "external_item =
     \<lparr>result_title = ''Example Title'', result_link = ''https://example.com/page'',
      result_snippet = []\<rparr>"

definition long_listing_web :: web where
  \<comment> \<open>the full markup endpoint lists the same external item 21 times\<close>
  "long_listing_web =
     \<lparr>httpFetch = (\<lambda>url. Inr (ok_response ''full'')),
      cheerio_load = (\<lambda>html. \<lparr>result_elements = replicate 21 external_element,
                               result_link_elements = []\<rparr>),
      encodeURIComponent = (\<lambda>s. s),
      decodeURIComponent = ascii_decodeURIComponent\<rparr>"

section \<open>Fetching a page (lib/bot-protection.js, lib/fetch.js, lib/http-fetch.js, lib/debug-dump.js)\<close>

record clear_result =
  detected :: bool
  cleared :: bool
  waitedMs :: nat

fun waitForBotProtectionToClear_detect ::
  "nat \<Rightarrow> page \<Rightarrow> string list \<Rightarrow> page_state \<Rightarrow> (js_error + bool) \<times> page_state" where
  \<comment> \<open>the detection loop with \<open>3 - i\<close> rounds left; its value is \<open>detected\<close> after the loop\<close>
  "waitForBotProtectionToClear_detect 0 p markers s = (Inr False, s)"
| "waitForBotProtectionToClear_detect (Suc rounds_left) p markers s =
     (case isLikelyBotProtectionPage p markers s of
        (Inl err, s1) \<Rightarrow> (Inl err, s1)
      | (Inr True, s1) \<Rightarrow> (Inr True, s1)
      | (Inr False, s1) \<Rightarrow>
          (case page_waitForTimeout p 200 s1 of
             (Inl err, s2) \<Rightarrow> (Inl err, s2)
           | (Inr u, s2) \<Rightarrow> waitForBotProtectionToClear_detect rounds_left p markers s2))"

definition waitForBotProtectionToClear ::
  "page \<Rightarrow> string list \<Rightarrow> page_state \<Rightarrow> (js_error + clear_result) \<times> page_state" where
  \<comment> \<open>\<open>waitForFunction\<close> and the two \<open>waitForLoadState\<close> calls swallow their errors and
     touch nothing the model records; the elapsed time is the page's\<close>
  "waitForBotProtectionToClear p markers s =
     (case page_waitForTimeout p (150 + jitter p) s of
        (Inl err, s1) \<Rightarrow> (Inl err, s1)
      | (Inr u, s1) \<Rightarrow>
          (case waitForBotProtectionToClear_detect 3 p markers s1 of
             (Inl err, s2) \<Rightarrow> (Inl err, s2)
           | (Inr False, s2) \<Rightarrow> (Inr \<lparr>detected = False, cleared = True, waitedMs = 0\<rparr>, s2)
           | (Inr True, s2) \<Rightarrow>
               (case page_waitForTimeout p 150 s2 of
                  (Inl err, s3) \<Rightarrow> (Inl err, s3)
                | (Inr u, s3) \<Rightarrow>
                    (case isLikelyBotProtectionPage p markers s3 of
                       (Inl err, s4) \<Rightarrow> (Inl err, s4)
                     | (Inr True, s4) \<Rightarrow>
                         (Inl (Error (''Bot protection challenge did not clear (title=\"''
                                      @ (case title_result p of Inr t \<Rightarrow> t | Inl err \<Rightarrow> [])
                                      @ ''\")'')), s4)
                     | (Inr False, s4) \<Rightarrow>
                         (Inr \<lparr>detected = True, cleared = True, waitedMs = elapsed p\<rparr>, s4)))))"

record fetch_result =
  fetch_url :: string
  fetch_title :: string
  fetch_content :: string
  fetch_error :: "string option"

record fetch_opts =
  botProtectionTimeoutMs :: nat
  debugDumpEnabled :: bool
  debugDumpDir :: "string option"

definition failure_message :: "string \<Rightarrow> js_error \<Rightarrow> string" where
  \<comment> \<open>\<open>err?.name === "AbortError" ? timeout_text : (err?.cause?.message || err?.message || String(err))\<close>\<close>
  "failure_message timeout_text err =
     (if err_name err = ''AbortError'' then timeout_text
      else or_else (case err_cause_message err of None \<Rightarrow> [] | Some m \<Rightarrow> m)
             (or_else (err_message err) (error_to_string err)))"

definition dumpDebugArtifacts :: "fetch_opts \<Rightarrow> string option" where
  \<comment> \<open>the directory written, or \<open>null\<close>: nothing is written unless dumping is enabled,
     and \<open>debugDumpDir opts\<close> is the directory \<open>mkdirSync\<close> managed to create, if any\<close>
  "dumpDebugArtifacts opts = (if \<not> debugDumpEnabled opts then None else debugDumpDir opts)"

definition fetchUrlFromContext_try ::
  "extract_env \<Rightarrow> page \<Rightarrow> string \<Rightarrow> bool \<Rightarrow> page_state \<Rightarrow> (js_error + fetch_result) \<times> page_state" where
  \<comment> \<open>the \<open>try\<close> block once the page is open\<close>
  "fetchUrlFromContext_try env p url truncate' s =
     (case goto_error p of
        Some err \<Rightarrow> (Inl err, s)
      | None \<Rightarrow>
          (case waitForBotProtectionToClear p DEFAULT_MARKERS s of
             (Inl err, s1) \<Rightarrow> (Inl err, s1)
           | (Inr waited, s1) \<Rightarrow>
               (case content_result p of
                  Inl err \<Rightarrow> (Inl err, s1)
                | Inr html \<Rightarrow>
                    (case parseHtmlToContent env html url truncate' of
                       Inl err \<Rightarrow> (Inl err, s1)
                     | Inr parsed \<Rightarrow>
                         (Inr \<lparr>fetch_url = url, fetch_title = parsed_title parsed,
                               fetch_content = parsed_content parsed, fetch_error = None\<rparr>, s1)))))"

definition fetchUrlFromContext ::
  "extract_env \<Rightarrow> (string \<Rightarrow> js_error + page) \<Rightarrow> string \<Rightarrow> bool \<Rightarrow> fetch_opts
     \<Rightarrow> (js_error + fetch_result) \<times> page_state option \<times> string list" where
  \<comment> \<open>the result (or the error thrown), the state the page is left in when one was opened,
     and the lines written to the console\<close>
  "fetchUrlFromContext env browser url truncate' opts =
     (case browser url of
        Inl err \<Rightarrow>
          (Inr \<lparr>fetch_url = url, fetch_title = [], fetch_content = [],
                fetch_error = Some (failure_message ''Timeout after 45s'' err)\<rparr>, None, [])
      | Inr p \<Rightarrow>
          (case fetchUrlFromContext_try env p url truncate' fresh_page_state of
             (Inr fetched, s) \<Rightarrow> (Inr fetched, Some (s\<lparr>closed := True\<rparr>), [])
           | (Inl err, s) \<Rightarrow>
               (let message = failure_message ''Timeout after 45s'' err;
                    dumpDir = (if \<not> closed s then dumpDebugArtifacts opts else None);
                    console = (case dumpDir of None \<Rightarrow> [] | Some dir \<Rightarrow> [''Debug dump saved: '' @ dir])
                in (Inr \<lparr>fetch_url = url, fetch_title = [], fetch_content = [],
                         fetch_error = Some message\<rparr>, Some (s\<lparr>closed := True\<rparr>), console))))"

fun fetchUrlsFromContext ::
  "extract_env \<Rightarrow> (string \<Rightarrow> js_error + page) \<Rightarrow> string list \<Rightarrow> bool \<Rightarrow> fetch_opts
     \<Rightarrow> js_error + fetch_result list" where
  "fetchUrlsFromContext env browser [] truncate' opts = Inr []"
| "fetchUrlsFromContext env browser (url # urls) truncate' opts =
     (case fst (fetchUrlFromContext env browser url truncate' opts) of
        Inl err \<Rightarrow> Inl err
      | Inr fetched \<Rightarrow>
          (case fetchUrlsFromContext env browser urls truncate' opts of
             Inl err \<Rightarrow> Inl err
           | Inr results \<Rightarrow> Inr (fetched # results)))"

definition fetchUrlViaHttp_try ::
  "extract_env \<Rightarrow> web \<Rightarrow> string \<Rightarrow> bool \<Rightarrow> js_error + fetch_result" where
  "fetchUrlViaHttp_try env w url truncate' =
     (case httpFetch w url of
        Inl err \<Rightarrow> Inl err
      | Inr response \<Rightarrow>
          if \<not> ok response then
            Inl (Error (''HTTP '' @ number_to_string (status response) @ '' '' @ statusText response))
          else
            (let contentType = or_else (case content_type response of None \<Rightarrow> [] | Some t \<Rightarrow> t) []
             in if \<not> str_includes contentType ''text/html''
                   \<and> \<not> str_includes contentType ''application/xhtml''
                then Inl (Error (''Not HTML: '' @ contentType))
                else
                  (case response_text response of
                     Inl err \<Rightarrow> Inl err
                   | Inr html \<Rightarrow>
                       (case parseHtmlToContent env html url truncate' of
                          Inl err \<Rightarrow> Inl err
                        | Inr parsed \<Rightarrow>
                            Inr \<lparr>fetch_url = url, fetch_title = parsed_title parsed,
                                 fetch_content = parsed_content parsed, fetch_error = None\<rparr>))))"

definition fetchUrlViaHttp ::
  "extract_env \<Rightarrow> web \<Rightarrow> string \<Rightarrow> bool \<Rightarrow> js_error + fetch_result" where
  "fetchUrlViaHttp env w url truncate' =
     (case fetchUrlViaHttp_try env w url truncate' of
        Inr fetched \<Rightarrow> Inr fetched
      | Inl err \<Rightarrow>
          Inr \<lparr>fetch_url = url, fetch_title = [], fetch_content = [],
               fetch_error = Some (failure_message ''Timeout after 15s'' err)\<rparr>)"

definition page_showing :: "document \<Rightarrow> string \<Rightarrow> page" where
  \<comment> \<open>a page that loads and shows the same document at every read\<close>
  "page_showing doc html =
     \<lparr>goto_error = None,
      evaluate_result = (\<lambda>k. Inr doc),
      waitForTimeout_error = (\<lambda>k. None),
      title_result = Inr (doc_title doc),
      content_result = Inr html,
      jitter = 0,
      elapsed = 0\<rparr>"

definition hello_document :: document where
  "hello_document = \<lparr>doc_title = ''Hello'', body_innerText = Some ''Hello World''\<rparr>"

definition unreachable_page :: page where
  \<comment> \<open>a page whose navigation times out\<close>
  "unreachable_page =
     (page_showing hello_document [])
       \<lparr>goto_error := Some (JsError ''TimeoutError'' ''page.goto: Timeout 45000ms exceeded.'' None)\<rparr>"

definition no_dump :: fetch_opts where
  "no_dump = \<lparr>botProtectionTimeoutMs = 30000, debugDumpEnabled = False, debugDumpDir = None\<rparr>"

definition offline_web :: web where
  \<comment> \<open>every request fails with the network error of \<open>fetch\<close>\<close>
  "offline_web =
     \<lparr>httpFetch = (\<lambda>url. Inl (JsError ''TypeError'' ''fetch failed'' (Some ''getaddrinfo ENOTFOUND example.invalid''))),
      cheerio_load = (\<lambda>html. \<lparr>result_elements = [], result_link_elements = []\<rparr>),
      encodeURIComponent = (\<lambda>s. s),
      decodeURIComponent = ascii_decodeURIComponent\<rparr>"

section \<open>The daemon (lib/daemon.js)\<close>

subsection \<open>JSON values\<close>

text \<open>
  What \<open>JSON.parse\<close> gives. A number is finite (an integer in the embedding) or one of
  the values \<open>Number.isFinite\<close> rejects; \<open>JSON.parse\<close> itself yields \<open>Infinity\<close> for a
  literal such as \<open>1e999\<close>. A property that is absent reads as \<open>undefined\<close>: \<open>None\<close>.
\<close>

datatype js_number = Finite int | NaN | PosInfinity | NegInfinity

datatype json =
    JNull
  | JBool bool
  | JNumber js_number
  | JString string
  | JArray "json list"
  | JObject "(string \<times> json) list"

fun js_truthy :: "json option \<Rightarrow> bool" where
  "js_truthy None = False"
| "js_truthy (Some JNull) = False"
| "js_truthy (Some (JBool b)) = b"
| "js_truthy (Some (JNumber (Finite n))) = (n \<noteq> 0)"
| "js_truthy (Some (JNumber NaN)) = False"
| "js_truthy (Some (JNumber PosInfinity)) = True"
| "js_truthy (Some (JNumber NegInfinity)) = True"
| "js_truthy (Some (JString s)) = (s \<noteq> [])"
| "js_truthy (Some (JArray xs)) = True"
| "js_truthy (Some (JObject kvs)) = True"

fun Number_isFinite :: "json option \<Rightarrow> bool" where
  "Number_isFinite (Some (JNumber (Finite n))) = True"
| "Number_isFinite v = False"

fun Array_isArray :: "json option \<Rightarrow> bool" where
  "Array_isArray (Some (JArray xs)) = True"
| "Array_isArray v = False"

fun get_property :: "json \<Rightarrow> string \<Rightarrow> js_error + json option" where
  \<comment> \<open>\<open>value.key\<close> for one of the keys the handler reads: a \<open>TypeError\<close> on \<open>null\<close>,
     \<open>undefined\<close> on a value that has no such property\<close>
  "get_property JNull key =
     Inl (JsError ''TypeError'' (''Cannot read properties of null (reading '' @ [CHR 0x27] @ key @ [CHR 0x27] @ '')'') None)"
| "get_property (JObject kvs) key = Inr (map_of kvs key)"
| "get_property v key = Inr None"

fun join_comma :: "string list \<Rightarrow> string" where
  \<comment> \<open>\<open>parts.join(",")\<close>\<close>
  "join_comma [] = []"
| "join_comma [x] = x"
| "join_comma (x # y # ys) = x @ '','' @ join_comma (y # ys)"

fun json_to_string :: "json \<Rightarrow> string" where
  \<comment> \<open>\<open>String(value)\<close> of a value that is not \<open>undefined\<close>\<close>
  "json_to_string JNull = ''null''"
| "json_to_string (JBool b) = (if b then ''true'' else ''false'')"
| "json_to_string (JNumber (Finite n)) = number_to_string n"
| "json_to_string (JNumber NaN) = ''NaN''"
| "json_to_string (JNumber PosInfinity) = ''Infinity''"
| "json_to_string (JNumber NegInfinity) = ''-Infinity''"
| "json_to_string (JString s) = s"
| "json_to_string (JArray xs) =
     join_comma (map (\<lambda>x. if x = JNull then [] else json_to_string x) xs)"
| "json_to_string (JObject kvs) = ''[object Object]''"

definition js_to_string :: "json option \<Rightarrow> string" where
  \<comment> \<open>a value in a template literal\<close>
  "js_to_string v = (case v of None \<Rightarrow> ''undefined'' | Some x \<Rightarrow> json_to_string x)"

subsection \<open>The command handler\<close>

text \<open>
  \<open>runWebBrowseDaemon\<close> is handed the operations it calls: \<open>daemon_deps\<close>. Each is given
  the payload's values as they are and answers with its result or the error it throws.
\<close>

datatype command_data =
    FetchData fetch_result
  | FetchManyData "fetch_result list"
  | SearchData "search_result list"

record daemon_deps =
  dep_fetchUrlFromContext :: "json \<Rightarrow> bool \<Rightarrow> js_error + fetch_result"
  dep_fetchUrlsFromContext :: "json list \<Rightarrow> bool \<Rightarrow> js_error + fetch_result list"
  dep_searchWebFromContext :: "json \<Rightarrow> int \<Rightarrow> js_error + search_result list"

record http_reply =
  reply_status :: nat
  reply_success :: bool
  reply_data :: "command_data option"
  reply_error :: "string option"

definition run_command :: "daemon_deps \<Rightarrow> js_error + json \<Rightarrow> js_error + command_data" where
  \<comment> \<open>the \<open>try\<close> block of the queued task up to \<open>data\<close>; its argument is what
     \<open>JSON.parse(body || "{}")\<close> gives\<close>
  "run_command deps parsed_body =
     (case parsed_body of
        Inl err \<Rightarrow> Inl err
      | Inr parsed \<Rightarrow>
          (case get_property parsed ''command'' of
             Inl err \<Rightarrow> Inl err
           | Inr command \<Rightarrow>
               (case get_property parsed ''payload'' of
                  Inl err \<Rightarrow> Inl err
                | Inr given \<Rightarrow>
                    (let payload = (if js_truthy given then the given else JObject []);
                         field = (\<lambda>key. case get_property payload key of Inl err \<Rightarrow> None | Inr v \<Rightarrow> v)
                     in if command = Some (JString ''fetch'') then
                          (if \<not> js_truthy (field ''url'') then Inl (Error ''fetch requires payload.url'')
                           else map_sum id FetchData
                                  (dep_fetchUrlFromContext deps (the (field ''url''))
                                     (js_truthy (field ''truncate''))))
                        else if command = Some (JString ''fetchMany'') then
                          (case field ''urls'' of
                             Some (JArray urls) \<Rightarrow>
                               map_sum id FetchManyData
                                 (dep_fetchUrlsFromContext deps urls (js_truthy (field ''truncate'')))
                           | _ \<Rightarrow> Inl (Error ''fetchMany requires payload.urls[]''))
                        else if command = Some (JString ''search'') then
                          (if \<not> js_truthy (field ''query'') then Inl (Error ''search requires payload.query'')
                           else
                             (let n = (case field ''numResults'' of
                                         Some (JNumber (Finite k)) \<Rightarrow> k
                                       | _ \<Rightarrow> 5)
                              in map_sum id SearchData
                                   (dep_searchWebFromContext deps (the (field ''query'')) n)))
                        else Inl (Error (''unknown command: '' @ js_to_string command))))))"

definition handle_command :: "daemon_deps \<Rightarrow> js_error + json \<Rightarrow> http_reply" where
  \<comment> \<open>the reply the task writes: 200 with the data, or 400 with the message of what
     the \<open>catch\<close> block caught\<close>
  "handle_command deps parsed_body =
     (case run_command deps parsed_body of
        Inr data \<Rightarrow>
          \<lparr>reply_status = 200, reply_success = True, reply_data = Some data, reply_error = None\<rparr>
      | Inl err \<Rightarrow>
          \<lparr>reply_status = 400, reply_success = False, reply_data = None,
           reply_error = Some (err_message err)\<rparr>)"

definition search_command :: "(string \<times> json) list \<Rightarrow> json" where
  \<comment> \<open>the body \<open>{"command": "search", "payload": {...}}\<close>\<close>
  "search_command payload_fields =
     JObject [(''command'', JString ''search''), (''payload'', JObject payload_fields)]"

definition recording_deps :: daemon_deps where
  \<comment> \<open>operations that answer with what they were asked: the search returns one result
     whose title is the query and whose snippet is the requested count\<close>
  "recording_deps =
     \<lparr>dep_fetchUrlFromContext = (\<lambda>url truncate'.
        Inr \<lparr>fetch_url = js_to_string (Some url), fetch_title = [], fetch_content = [], fetch_error = None\<rparr>),
      dep_fetchUrlsFromContext = (\<lambda>urls truncate'. Inr []),
      dep_searchWebFromContext = (\<lambda>query n.
        Inr [\<lparr>result_title = js_to_string (Some query), result_link = [],
               result_snippet = number_to_string n\<rparr>])\<rparr>"

subsection \<open>The task queue\<close>

text \<open>
  \<open>let queue = Promise.resolve()\<close> and \<open>enqueue = (fn) => { queue = queue.then(fn, fn);
  return queue; }\<close> build a chain of promises, one per command, oldest first. The
  embedding keeps, for every command, the task and the phase of its link of the chain:

  \<^item> \<open>Waiting\<close>: \<open>fn\<close> is registered as the reaction of the promise before it, which is
    still pending;
  \<^item> \<open>Scheduled\<close>: the promise before it has settled (or was settled when \<open>then\<close> was
    called) and the job that calls \<open>fn\<close> is in the microtask queue;
  \<^item> \<open>Running n\<close>: \<open>fn\<close> has been called and has \<open>n\<close> suspension points (\<open>await\<close>) left
    before it returns or throws;
  \<^item> \<open>Settled\<close>: the promise \<open>fn\<close> returned has settled, and so has the link.

  \<open>fn\<close> is registered for fulfilment and for rejection alike (\<open>then(fn, fn)\<close>), so the
  link after a settled one is scheduled whatever the outcome. A task is the parsed body
  of its request, the number of suspension points its handler goes through, and
  whether writing its reply throws (the one way the handler's promise rejects: the
  \<open>try\<close> block's errors are caught by its \<open>catch\<close>). The events are the request that
  posts a command and the event loop's moves on a link; \<open>step\<close> is \<open>None\<close> for a move
  that is not enabled. The state also records the order in which tasks were started
  and finished, with the reply each one wrote.
\<close>

datatype settlement = Fulfilled | Rejected

datatype phase = Waiting | Scheduled | Running nat | Settled settlement

record queued_task =
  task_body :: "js_error + json"
  task_awaits :: nat
  task_write_fails :: bool

record daemon_queue =
  chain :: "(queued_task \<times> phase) list"
  started :: "nat list"
  finished :: "(nat \<times> http_reply option) list"

datatype event = Post queued_task | Start nat | Resume nat | Finish nat

fun is_settled :: "phase \<Rightarrow> bool" where
  "is_settled (Settled outcome) = True"
| "is_settled p = False"

fun is_running :: "phase \<Rightarrow> bool" where
  "is_running (Running n) = True"
| "is_running p = False"

definition empty_queue :: daemon_queue where
  \<comment> \<open>\<open>queue = Promise.resolve()\<close>: nothing chained yet\<close>
  "empty_queue = \<lparr>chain = [], started = [], finished = []\<rparr>"

definition enqueue :: "queued_task \<Rightarrow> daemon_queue \<Rightarrow> daemon_queue" where
  \<comment> \<open>\<open>queue = queue.then(fn, fn)\<close>: on a settled promise the reaction job is queued at
     once, on a pending one \<open>fn\<close> is registered\<close>
  "enqueue t s =
     s\<lparr>chain := chain s @
         [(t, if chain s = [] \<or> is_settled (snd (last (chain s))) then Scheduled else Waiting)]\<rparr>"

definition written_reply :: "daemon_deps \<Rightarrow> queued_task \<Rightarrow> http_reply option" where
  \<comment> \<open>the reply the task writes, \<open>None\<close> when writing it throws\<close>
  "written_reply deps t =
     (if task_write_fails t then None else Some (handle_command deps (task_body t)))"

definition settle :: "daemon_deps \<Rightarrow> nat \<Rightarrow> daemon_queue \<Rightarrow> daemon_queue" where
  \<comment> \<open>the handler of link \<open>i\<close> returns or throws: the link settles, and the reaction
     registered on it, if any, is scheduled\<close>
  "settle deps i s =
     (let t = fst (chain s ! i);
          outcome = (if task_write_fails t then Rejected else Fulfilled);
          settled = (chain s)[i := (t, Settled outcome)];
          woken = (if Suc i < length settled \<and> snd (settled ! Suc i) = Waiting
                   then settled[Suc i := (fst (settled ! Suc i), Scheduled)]
                   else settled)
      in s\<lparr>chain := woken, finished := finished s @ [(i, written_reply deps t)]\<rparr>)"

fun step :: "daemon_deps \<Rightarrow> event \<Rightarrow> daemon_queue \<Rightarrow> daemon_queue option" where
  "step deps (Post t) s = Some (enqueue t s)"
| "step deps (Start i) s =
     (if i < length (chain s) \<and> snd (chain s ! i) = Scheduled
      then Some (s\<lparr>chain := (chain s)[i := (fst (chain s ! i), Running (task_awaits (fst (chain s ! i))))],
                  started := started s @ [i]\<rparr>)
      else None)"
| "step deps (Resume i) s =
     (if i < length (chain s) then
        (case snd (chain s ! i) of
           Running (Suc n) \<Rightarrow> Some (s\<lparr>chain := (chain s)[i := (fst (chain s ! i), Running n)]\<rparr>)
         | _ \<Rightarrow> None)
      else None)"
| "step deps (Finish i) s =
     (if i < length (chain s) \<and> snd (chain s ! i) = Running 0 then Some (settle deps i s) else None)"

fun run :: "daemon_deps \<Rightarrow> event list \<Rightarrow> daemon_queue \<Rightarrow> daemon_queue option" where
  "run deps [] s = Some s"
| "run deps (e # es) s = (case step deps e s of None \<Rightarrow> None | Some s' \<Rightarrow> run deps es s')"

fun posted :: "event list \<Rightarrow> queued_task list" where
  \<comment> \<open>the commands of a sequence of events, in submission order\<close>
  "posted [] = []"
| "posted (Post t # es) = t # posted es"
| "posted (e # es) = posted es"

definition running_operations :: "daemon_queue \<Rightarrow> nat" where
  \<comment> \<open>the number of handlers that have been called and have not returned\<close>
  "running_operations s = length (filter (\<lambda>(t, p). is_running p) (chain s))"

fun first_active :: "phase list \<Rightarrow> nat option" where
  "first_active [] = None"
| "first_active (Scheduled # ps) = Some 0"
| "first_active (Running n # ps) = Some 0"
| "first_active (p # ps) = map_option Suc (first_active ps)"

definition next_event :: "daemon_queue \<Rightarrow> event option" where
  \<comment> \<open>the move of the event loop on the first link that is scheduled or running\<close>
  "next_event s =
     (case first_active (map snd (chain s)) of
        None \<Rightarrow> None
      | Some i \<Rightarrow>
          (case snd (chain s ! i) of
             Scheduled \<Rightarrow> Some (Start i)
           | Running 0 \<Rightarrow> Some (Finish i)
           | Running (Suc n) \<Rightarrow> Some (Resume i)
           | _ \<Rightarrow> None))"

fun drain :: "daemon_deps \<Rightarrow> nat \<Rightarrow> daemon_queue \<Rightarrow> daemon_queue" where
  \<comment> \<open>the event loop left alone for at most \<open>fuel\<close> moves\<close>
  "drain deps 0 s = s"
| "drain deps (Suc fuel) s =
     (case next_event s of
        None \<Rightarrow> s
      | Some e \<Rightarrow> (case step deps e s of None \<Rightarrow> s | Some s' \<Rightarrow> drain deps fuel s'))"

fun moves_left :: "queued_task \<times> phase \<Rightarrow> nat" where
  \<comment> \<open>the moves a link still needs: the start, one per suspension point, the finish\<close>
  "moves_left (t, Waiting) = task_awaits t + 2"
| "moves_left (t, Scheduled) = task_awaits t + 2"
| "moves_left (t, Running n) = n + 1"
| "moves_left (t, Settled outcome) = 0"

definition work_left :: "daemon_queue \<Rightarrow> nat" where
  "work_left s = sum_list (map moves_left (chain s))"

definition serialised :: "daemon_deps \<Rightarrow> daemon_queue \<Rightarrow> nat \<Rightarrow> bool" where
  \<comment> \<open>the shape of the chain: \<open>k\<close> settled links, then at most one link that is scheduled
     or running, then waiting links; and the logs that go with it\<close>
  "serialised deps s k \<longleftrightarrow>
     k \<le> length (chain s)
     \<and> (\<forall>i<k. is_settled (snd (chain s ! i)))
     \<and> (k < length (chain s) \<longrightarrow>
          snd (chain s ! k) = Scheduled \<or> is_running (snd (chain s ! k)))
     \<and> (\<forall>i. k < i \<and> i < length (chain s) \<longrightarrow> snd (chain s ! i) = Waiting)
     \<and> started s = [0..<(if k < length (chain s) \<and> is_running (snd (chain s ! k)) then Suc k else k)]
     \<and> finished s = map (\<lambda>i. (i, written_reply deps (fst (chain s ! i)))) [0..<k]"

definition unknown_task :: queued_task where
  \<comment> \<open>a command the handler rejects\<close>
  "unknown_task =
     \<lparr>task_body = Inr (JObject [(''command'', JString ''reboot'')]), task_awaits = 1,
      task_write_fails = False\<rparr>"

definition search_task :: queued_task where
  "search_task =
     \<lparr>task_body = Inr (search_command [(''query'', JString ''isabelle'')]), task_awaits = 2,
      task_write_fails = False\<rparr>"

definition broken_task :: queued_task where
  \<comment> \<open>a body that is not JSON, on a connection on which writing the reply throws\<close>
  "broken_task =
     \<lparr>task_body = Inl (JsError ''SyntaxError'' ''Unexpected end of JSON input'' None), task_awaits = 0,
      task_write_fails = True\<rparr>"

definition sample_events :: "event list" where
  \<comment> \<open>four commands posted while earlier ones are being handled\<close>
  "sample_events =
     [Post unknown_task, Post search_task, Start 0, Post broken_task, Resume 0, Finish 0,
      Start 1, Post search_task]"

section \<open>Facts about strings\<close>

lemma str_includes_iff_sublist: "str_includes hay needle \<longleftrightarrow> sublist needle hay"
  by (induction hay) (simp_all add: sublist_Cons_right)

lemma toLowerCase_append: "toLowerCase (xs @ ys) = toLowerCase xs @ toLowerCase ys"
  by (simp add: toLowerCase_def)

lemma sublist_toLowerCase: "sublist u s \<Longrightarrow> sublist (toLowerCase u) (toLowerCase s)"
  unfolding toLowerCase_def by (rule map_mono_sublist)

lemma line_feed_not_in_markers: "m \<in> set DEFAULT_MARKERS \<Longrightarrow> CHR 0x0A \<notin> set m"
  by (auto simp: DEFAULT_MARKERS_def)

lemma sublist_across_separator:
  assumes "c \<notin> set m"
  shows "sublist m (a @ [c] @ b) \<longleftrightarrow> sublist m a \<or> sublist m b"
proof -
  have tail: "sublist m (c # b) \<longleftrightarrow> m = [] \<or> sublist m b"
    using assms by (auto simp: sublist_Cons_right prefix_Cons)
  have straddle: "sublist m a"
    if "\<exists>xs1 xs2. m = xs1 @ xs2 \<and> suffix xs1 a \<and> prefix xs2 (c # b)"
  proof -
    from that obtain xs1 xs2
      where m: "m = xs1 @ xs2" and s: "suffix xs1 a" and p: "prefix xs2 (c # b)"
      by blast
    from p assms m have "xs2 = []" by (auto simp: prefix_Cons)
    with m s show "sublist m a" by (simp add: suffix_imp_sublist)
  qed
  show ?thesis
    using tail straddle by (auto simp: sublist_append)
qed

lemmas string_eval = toLowerCase_def toLowerUnit_def char_of_def bit_0

section \<open>Bot-protection marker matching\<close>

lemma isLikelyBotProtectionText_haystack:
  "isLikelyBotProtectionText title txt markers \<longleftrightarrow>
     (\<exists>m \<in> set markers. sublist m (page_haystack title txt))"
  by (simp add: isLikelyBotProtectionText_def page_haystack_def list_ex_iff str_includes_iff_sublist)

text \<open>
  The two tests of test/bot-protection.test.js.
\<close>

lemma isLikelyBotProtectionText_test_anubis:
  "isLikelyBotProtectionText (''Making sure you'' @ [CHR 0x27] @ ''re not a bot!'')
     ''Protected by Anubis from Techaro'' DEFAULT_MARKERS = True"
  by (simp add: isLikelyBotProtectionText_def DEFAULT_MARKERS_def string_eval)

lemma isLikelyBotProtectionText_test_normal_page:
  "isLikelyBotProtectionText ''Example Domain''
     ''This domain is for use in illustrative examples.'' DEFAULT_MARKERS = False"
  by (simp add: isLikelyBotProtectionText_def DEFAULT_MARKERS_def string_eval)

text \<open>
  C4, as stated, takes the haystack to be the lower-cased concatenation of the title and
  the first 6000 code units of the text. The source joins the two with a line feed
  (\<open>`${t}\n${body}`\<close>), so a marker that would only appear across the boundary of a plain
  concatenation is not matched: with the title \<open>Just a\<close> and the text \<open> moment...\<close>
  the classifier answers false although the lower-cased concatenation contains the
  marker \<open>just a moment\<close>.
\<close>

theorem isLikelyBotProtectionText_concatenation_counterexample:
  "isLikelyBotProtectionText ''Just a'' '' moment...'' DEFAULT_MARKERS = False
   \<and> ''just a moment'' \<in> set DEFAULT_MARKERS
   \<and> str_includes (toLowerCase (''Just a'' @ take 6000 '' moment...'')) ''just a moment'' = True"
  by (simp add: isLikelyBotProtectionText_def DEFAULT_MARKERS_def string_eval)

text \<open>
  C4 (amended): for every title and text, \<open>isLikelyBotProtectionText\<close> with the fixed
  marker list returns true if and only if some marker is a substring of the lower-cased
  title, a line feed, and the lower-cased first 6000 code units of the text; since no
  marker contains a line feed, that is: if and only if some marker is a substring of the
  lower-cased title or of the lower-cased first 6000 code units of the text. Matching
  is case-insensitive: a string \<open>u\<close> whose lower-casing is a marker and that occurs in the
  title or in the first 6000 code units of the text makes the classifier answer true;
  a page with no marker in either part yields false.
\<close>

theorem isLikelyBotProtectionText_markers:
  "(isLikelyBotProtectionText title txt DEFAULT_MARKERS \<longleftrightarrow>
      (\<exists>m \<in> set DEFAULT_MARKERS.
         sublist m (toLowerCase title @ [CHR 0x0A] @ toLowerCase (take 6000 txt))))
   \<and> (isLikelyBotProtectionText title txt DEFAULT_MARKERS \<longleftrightarrow>
      (\<exists>m \<in> set DEFAULT_MARKERS.
         sublist m (toLowerCase title) \<or> sublist m (toLowerCase (take 6000 txt))))
   \<and> (toLowerCase u \<in> set DEFAULT_MARKERS \<and> (sublist u title \<or> sublist u (take 6000 txt))
        \<longrightarrow> isLikelyBotProtectionText title txt DEFAULT_MARKERS)"
proof -
  have joined: "isLikelyBotProtectionText title txt DEFAULT_MARKERS \<longleftrightarrow>
      (\<exists>m \<in> set DEFAULT_MARKERS.
         sublist m (toLowerCase title @ [CHR 0x0A] @ toLowerCase (take 6000 txt)))"
    using isLikelyBotProtectionText_haystack [of title "txt" DEFAULT_MARKERS]
    by (simp add: page_haystack_def)
  have parts: "isLikelyBotProtectionText title txt DEFAULT_MARKERS \<longleftrightarrow>
      (\<exists>m \<in> set DEFAULT_MARKERS.
         sublist m (toLowerCase title) \<or> sublist m (toLowerCase (take 6000 txt)))"
    unfolding joined using sublist_across_separator [OF line_feed_not_in_markers] by blast
  have any_case:
    "toLowerCase u \<in> set DEFAULT_MARKERS \<and> (sublist u title \<or> sublist u (take 6000 txt))
       \<longrightarrow> isLikelyBotProtectionText title txt DEFAULT_MARKERS"
    unfolding parts using sublist_toLowerCase by blast
  from joined parts any_case show ?thesis by blast
qed

theorem isLikelyBotProtectionText_markers_witness:
  "toLowerCase ''Protected by Anubis'' \<in> set DEFAULT_MARKERS
   \<and> sublist ''Protected by Anubis'' (take 6000 ''Protected by Anubis from Techaro'')
   \<and> isLikelyBotProtectionText (''Making sure you'' @ [CHR 0x27] @ ''re not a bot!'')
     ''Protected by Anubis from Techaro'' DEFAULT_MARKERS"
proof -
  have marker: "toLowerCase ''Protected by Anubis'' \<in> set DEFAULT_MARKERS"
    by (simp add: DEFAULT_MARKERS_def string_eval)
  have "str_includes (take 6000 ''Protected by Anubis from Techaro'') ''Protected by Anubis''"
    by simp
  then have occurs: "sublist ''Protected by Anubis'' (take 6000 ''Protected by Anubis from Techaro'')"
    by (simp only: str_includes_iff_sublist)
  show ?thesis
    using isLikelyBotProtectionText_markers [of "''Making sure you'' @ [CHR 0x27] @ ''re not a bot!''"
        "''Protected by Anubis from Techaro''" "''Protected by Anubis''"] marker occurs
    by blast
qed

section \<open>Bot-protection detection on a page\<close>

lemma isLikelyBotProtectionPage_loop_returns:
  "\<exists>b s'. isLikelyBotProtectionPage_loop n p markers s = (Inr b, s')
      \<and> evaluations s' \<le> evaluations s + n"
proof (induction n arbitrary: s)
  case 0
  show ?case by auto
next
  case (Suc n)
  show ?case
  proof (cases "evaluate_result p (evaluations s)")
    case (Inr doc)
    then show ?thesis by (auto simp: page_evaluate_def)
  next
    case (Inl err)
    show ?thesis
    proof (cases "context_torn_down err")
      case False
      with Inl show ?thesis by (auto simp: page_evaluate_def context_torn_down_def)
    next
      case True
      obtain b s' where
        "isLikelyBotProtectionPage_loop n p markers
            (snd (page_waitForTimeout p 250 (s\<lparr>evaluations := Suc (evaluations s)\<rparr>))) = (Inr b, s')"
        "evaluations s' \<le> evaluations (snd (page_waitForTimeout p 250 (s\<lparr>evaluations := Suc (evaluations s)\<rparr>))) + n"
        using Suc.IH by blast
      with Inl True show ?thesis
        by (simp add: page_evaluate_def context_torn_down_def page_waitForTimeout_def)
    qed
  qed
qed

lemma isLikelyBotProtectionPage_loop_skip:
  assumes "k \<le> n"
    and "\<forall>j<k. \<exists>e. evaluate_result p (evaluations s + j) = Inl e \<and> context_torn_down e"
  shows "isLikelyBotProtectionPage_loop n p markers s =
         isLikelyBotProtectionPage_loop (n - k) p markers
           (s\<lparr>evaluations := evaluations s + k, timeouts := timeouts s @ replicate k 250\<rparr>)"
  using assms
proof (induction k arbitrary: n s)
  case 0
  show ?case by simp
next
  case (Suc k)
  from Suc.prems(1) obtain n' where n: "n = Suc n'" and kn: "k \<le> n'"
    by (cases n) simp_all
  from Suc.prems(2) obtain e where e: "evaluate_result p (evaluations s) = Inl e" "context_torn_down e"
    by force
  let ?s = "s\<lparr>evaluations := Suc (evaluations s), timeouts := timeouts s @ [250]\<rparr>"
  have step: "isLikelyBotProtectionPage_loop n p markers s = isLikelyBotProtectionPage_loop n' p markers ?s"
    using e n by (simp add: page_evaluate_def context_torn_down_def page_waitForTimeout_def)
  have later: "\<forall>j<k. \<exists>e. evaluate_result p (evaluations ?s + j) = Inl e \<and> context_torn_down e"
  proof (intro allI impI)
    fix j assume "j < k"
    then have "Suc j < Suc k" by simp
    with Suc.prems(2) have "\<exists>e. evaluate_result p (evaluations s + Suc j) = Inl e \<and> context_torn_down e"
      by blast
    then show "\<exists>e. evaluate_result p (evaluations ?s + j) = Inl e \<and> context_torn_down e"
      by simp
  qed
  have "isLikelyBotProtectionPage_loop n' p markers ?s =
        isLikelyBotProtectionPage_loop (n' - k) p markers
          (?s\<lparr>evaluations := evaluations ?s + k, timeouts := timeouts ?s @ replicate k 250\<rparr>)"
    by (rule Suc.IH [OF kn later])
  with step n show ?case
    by (simp add: replicate_append_same)
qed

lemma isLikelyBotProtectionPage_loop_exhausted:
  assumes "\<forall>j<n. \<exists>e. evaluate_result p (evaluations s + j) = Inl e \<and> context_torn_down e"
  shows "isLikelyBotProtectionPage_loop n p markers s =
           (Inr False, s\<lparr>evaluations := evaluations s + n, timeouts := timeouts s @ replicate n 250\<rparr>)"
  using isLikelyBotProtectionPage_loop_skip [of n n p s markers] assms by simp

lemma isLikelyBotProtectionPage_loop_value:
  assumes "k < n"
    and "\<forall>j<k. \<exists>e. evaluate_result p (evaluations s + j) = Inl e \<and> context_torn_down e"
    and "evaluate_result p (evaluations s + k) = Inr doc"
  shows "isLikelyBotProtectionPage_loop n p markers s =
           (Inr (detect_in_page doc markers),
            s\<lparr>evaluations := evaluations s + k + 1, timeouts := timeouts s @ replicate k 250\<rparr>)"
proof -
  from assms(1) obtain m where m: "n - k = Suc m" by (cases "n - k") simp_all
  have "isLikelyBotProtectionPage_loop n p markers s =
         isLikelyBotProtectionPage_loop (Suc m) p markers
           (s\<lparr>evaluations := evaluations s + k, timeouts := timeouts s @ replicate k 250\<rparr>)"
    using isLikelyBotProtectionPage_loop_skip [of k n p s markers] assms(1,2) m by simp
  with assms(3) show ?thesis by (simp add: page_evaluate_def)
qed

lemma isLikelyBotProtectionPage_loop_other_error:
  assumes "k < n"
    and "\<forall>j<k. \<exists>e. evaluate_result p (evaluations s + j) = Inl e \<and> context_torn_down e"
    and "evaluate_result p (evaluations s + k) = Inl err" and "\<not> context_torn_down err"
  shows "isLikelyBotProtectionPage_loop n p markers s =
           (Inr False,
            s\<lparr>evaluations := evaluations s + k + 1, timeouts := timeouts s @ replicate k 250\<rparr>)"
proof -
  from assms(1) obtain m where m: "n - k = Suc m" by (cases "n - k") simp_all
  have "isLikelyBotProtectionPage_loop n p markers s =
         isLikelyBotProtectionPage_loop (Suc m) p markers
           (s\<lparr>evaluations := evaluations s + k, timeouts := timeouts s @ replicate k 250\<rparr>)"
    using isLikelyBotProtectionPage_loop_skip [of k n p s markers] assms(1,2) m by simp
  with assms(3,4) show ?thesis by (simp add: page_evaluate_def context_torn_down_def)
qed

lemma isLikelyBotProtectionPage_three:
  "isLikelyBotProtectionPage p markers s = isLikelyBotProtectionPage_loop (Suc (Suc (Suc 0))) p markers s"
  by (simp add: isLikelyBotProtectionPage_def numeral_3_eq_3)

text \<open>
  C5, as stated, has every failing read retried up to three times before the failure is
  surfaced. The source retries only an error whose message says that the script context
  was torn down (\<open>Execution context was destroyed\<close>, \<open>Cannot find context\<close>); any other
  error makes it return \<open>false\<close> at once. On \<open>closed_target_page\<close> the first read throws
  another error: the classifier answers "not blocked" after that single read and without
  a pause, although the second read would have seen a challenge.
\<close>

theorem isLikelyBotProtectionPage_single_read_counterexample:
  "isLikelyBotProtectionPage closed_target_page DEFAULT_MARKERS fresh_page_state =
     (Inr False, \<lparr>evaluations = 1, timeouts = [], closed = False\<rparr>)
   \<and> evaluate_result closed_target_page 1 = Inr challenge_document
   \<and> detect_in_page challenge_document DEFAULT_MARKERS = True"
  by (simp add: isLikelyBotProtectionPage_three closed_target_page_def fresh_page_state_def
      page_evaluate_def Error_def challenge_document_def detect_in_page_def DEFAULT_MARKERS_def string_eval)

text \<open>
  C5 (amended): \<open>isLikelyBotProtectionPage\<close> never raises and reads the page at most three
  times. A read that throws a context tear-down error is followed by a pause of 250 ms
  and the next attempt; when all three attempts fail that way the answer is "not
  blocked" (false). A read that throws any other error is not retried: the answer is
  "not blocked" at once. The first read that succeeds decides the answer. Detection
  errors always fail open.
\<close>

theorem isLikelyBotProtectionPage_fail_open:
  "(\<exists>b s'. isLikelyBotProtectionPage p markers s = (Inr b, s') \<and> evaluations s' \<le> evaluations s + 3)
   \<and> ((\<forall>j<3. \<exists>e. evaluate_result p (evaluations s + j) = Inl e \<and> context_torn_down e) \<longrightarrow>
        isLikelyBotProtectionPage p markers s =
          (Inr False, s\<lparr>evaluations := evaluations s + 3, timeouts := timeouts s @ [250, 250, 250]\<rparr>))
   \<and> (k < 3 \<and> (\<forall>j<k. \<exists>e. evaluate_result p (evaluations s + j) = Inl e \<and> context_torn_down e)
        \<and> evaluate_result p (evaluations s + k) = Inl err \<and> \<not> context_torn_down err \<longrightarrow>
        isLikelyBotProtectionPage p markers s =
          (Inr False, s\<lparr>evaluations := evaluations s + k + 1, timeouts := timeouts s @ replicate k 250\<rparr>))
   \<and> (k < 3 \<and> (\<forall>j<k. \<exists>e. evaluate_result p (evaluations s + j) = Inl e \<and> context_torn_down e)
        \<and> evaluate_result p (evaluations s + k) = Inr doc \<longrightarrow>
        isLikelyBotProtectionPage p markers s =
          (Inr (detect_in_page doc markers),
           s\<lparr>evaluations := evaluations s + k + 1, timeouts := timeouts s @ replicate k 250\<rparr>))"
  unfolding isLikelyBotProtectionPage_def
  using isLikelyBotProtectionPage_loop_returns [of 3 p markers s] isLikelyBotProtectionPage_loop_exhausted [of 3 p s markers]
    isLikelyBotProtectionPage_loop_other_error [of k 3 p s err markers] isLikelyBotProtectionPage_loop_value [of k 3 p s doc markers]
  by (simp add: numeral_3_eq_3)


theorem isLikelyBotProtectionPage_fail_open_witness:
  "isLikelyBotProtectionPage navigating_page DEFAULT_MARKERS fresh_page_state =
     (Inr False, \<lparr>evaluations = 3, timeouts = [250, 250, 250], closed = False\<rparr>)
   \<and> isLikelyBotProtectionPage closed_target_page DEFAULT_MARKERS fresh_page_state =
     (Inr False, \<lparr>evaluations = 1, timeouts = [], closed = False\<rparr>)
   \<and> isLikelyBotProtectionPage redirecting_page DEFAULT_MARKERS fresh_page_state =
     (Inr True, \<lparr>evaluations = 2, timeouts = [250], closed = False\<rparr>)"
proof -
  have torn: "context_torn_down
      (Error ''page.evaluate: Execution context was destroyed, most likely because of a navigation'')"
    by (simp add: context_torn_down_def Error_def)
  have torn': "context_torn_down (Error ''Cannot find context with specified id'')"
    by (simp add: context_torn_down_def Error_def)
  have other: "\<not> context_torn_down (Error ''Target page, context or browser has been closed'')"
    by (simp add: context_torn_down_def Error_def)
  have challenge: "detect_in_page challenge_document DEFAULT_MARKERS"
    by (simp add: challenge_document_def detect_in_page_def DEFAULT_MARKERS_def string_eval)
  have a: "isLikelyBotProtectionPage navigating_page DEFAULT_MARKERS fresh_page_state =
     (Inr False, \<lparr>evaluations = 3, timeouts = [250, 250, 250], closed = False\<rparr>)"
    using isLikelyBotProtectionPage_fail_open [of navigating_page DEFAULT_MARKERS fresh_page_state] torn
    by (simp add: navigating_page_def fresh_page_state_def)
  have b: "isLikelyBotProtectionPage closed_target_page DEFAULT_MARKERS fresh_page_state =
     (Inr False, \<lparr>evaluations = 1, timeouts = [], closed = False\<rparr>)"
    using isLikelyBotProtectionPage_fail_open [of closed_target_page DEFAULT_MARKERS fresh_page_state 0
        "Error ''Target page, context or browser has been closed''"] other
    by (simp add: closed_target_page_def fresh_page_state_def)
  have c: "isLikelyBotProtectionPage redirecting_page DEFAULT_MARKERS fresh_page_state =
     (Inr True, \<lparr>evaluations = 2, timeouts = [250], closed = False\<rparr>)"
    using isLikelyBotProtectionPage_fail_open [of redirecting_page DEFAULT_MARKERS fresh_page_state 1
        _ challenge_document] torn' challenge
    by (simp add: redirecting_page_def fresh_page_state_def)
  from a b c show ?thesis by blast
qed

section \<open>Port negotiation\<close>

lemma chooseAvailablePort_from_first_free:
  "offset \<le> k \<Longrightarrow> k \<le> 25 \<Longrightarrow> isPortAvailable env (preferredPort + k) \<Longrightarrow>
   (\<forall>j. offset \<le> j \<and> j < k \<longrightarrow> \<not> isPortAvailable env (preferredPort + j)) \<Longrightarrow>
   chooseAvailablePort_from env preferredPort offset = Inr (preferredPort + k)"
proof (induction env preferredPort offset rule: chooseAvailablePort_from.induct)
  case (1 env preferredPort offset)
  show ?case
  proof (cases "offset = k")
    case True
    with "1.prems" show ?thesis
      by (simp add: chooseAvailablePort_from.simps [of env preferredPort k])
  next
    case False
    with "1.prems" have lt: "offset < k" and busy: "\<not> isPortAvailable env (preferredPort + offset)"
      by auto
    have "chooseAvailablePort_from env preferredPort (offset + 1) = Inr (preferredPort + k)"
      using "1.IH" [OF _ refl busy] lt "1.prems" by auto
    with lt busy "1.prems"(2) show ?thesis
      by (simp add: chooseAvailablePort_from.simps [of env preferredPort offset])
  qed
qed

lemma chooseAvailablePort_from_none_free:
  "(\<forall>j. offset \<le> j \<and> j \<le> 25 \<longrightarrow> \<not> isPortAvailable env (preferredPort + j)) \<Longrightarrow>
   chooseAvailablePort_from env preferredPort offset = getEphemeralPort env"
proof (induction env preferredPort offset rule: chooseAvailablePort_from.induct)
  case (1 env preferredPort offset)
  show ?case
  proof (cases "offset \<le> 25")
    case False
    then show ?thesis by (simp add: chooseAvailablePort_from.simps [of env preferredPort offset])
  next
    case True
    with "1.prems" have busy: "\<not> isPortAvailable env (preferredPort + offset)" by auto
    have "chooseAvailablePort_from env preferredPort (offset + 1) = getEphemeralPort env"
      using "1.IH" [OF True refl busy] "1.prems" by auto
    with True busy show ?thesis
      by (simp add: chooseAvailablePort_from.simps [of env preferredPort offset])
  qed
qed

lemma chooseAvailablePort_from_port:
  "chooseAvailablePort_from env preferredPort offset = Inr port \<Longrightarrow>
   isPortAvailable env port \<or> getEphemeralPort env = Inr port"
proof (induction env preferredPort offset rule: chooseAvailablePort_from.induct)
  case (1 env preferredPort offset)
  show ?case
  proof (cases "offset \<le> 25")
    case False
    with "1.prems" show ?thesis by (simp add: chooseAvailablePort_from.simps [of env preferredPort offset])
  next
    case True
    show ?thesis
    proof (cases "isPortAvailable env (preferredPort + offset)")
      case free: True
      with True "1.prems" show ?thesis
        by (simp add: chooseAvailablePort_from.simps [of env preferredPort offset])
    next
      case busy: False
      with True "1.prems" have "chooseAvailablePort_from env preferredPort (offset + 1) = Inr port"
        by (simp add: chooseAvailablePort_from.simps [of env preferredPort offset])
      then show ?thesis by (rule "1.IH" [OF True refl busy])
    qed
  qed
qed

lemma chooseAvailablePort_from_error:
  "chooseAvailablePort_from env preferredPort offset = Inl err \<Longrightarrow>
   getEphemeralPort env = Inl err
   \<and> (\<forall>j. offset \<le> j \<and> j \<le> 25 \<longrightarrow> \<not> isPortAvailable env (preferredPort + j))"
proof (induction env preferredPort offset rule: chooseAvailablePort_from.induct)
  case (1 env preferredPort offset)
  show ?case
  proof (cases "offset \<le> 25")
    case False
    with "1.prems" show ?thesis by (auto simp: chooseAvailablePort_from.simps [of env preferredPort offset])
  next
    case True
    show ?thesis
    proof (cases "isPortAvailable env (preferredPort + offset)")
      case free: True
      with True "1.prems" show ?thesis
        by (simp add: chooseAvailablePort_from.simps [of env preferredPort offset])
    next
      case busy: False
      with True "1.prems" have "chooseAvailablePort_from env preferredPort (offset + 1) = Inl err"
        by (simp add: chooseAvailablePort_from.simps [of env preferredPort offset])
      then have ih: "getEphemeralPort env = Inl err
         \<and> (\<forall>j. offset + 1 \<le> j \<and> j \<le> 25 \<longrightarrow> \<not> isPortAvailable env (preferredPort + j))"
        by (rule "1.IH" [OF True refl busy])
      have "\<not> isPortAvailable env (preferredPort + j)" if "offset \<le> j" "j \<le> 25" for j
      proof (cases "j = offset")
        case True
        with busy show ?thesis by simp
      next
        case False
        with that have "offset + 1 \<le> j" by simp
        with ih that show ?thesis by blast
      qed
      with ih show ?thesis by blast
    qed
  qed
qed



lemma getEphemeralPort_free:
  "os_assigns_free_port env \<Longrightarrow> getEphemeralPort env = Inr port \<Longrightarrow> isPortAvailable env port"
  by (auto simp: os_assigns_free_port_def getEphemeralPort_def split: sum.splits option.splits if_splits)

text \<open>
  C9: for every preferred port, \<open>chooseAvailablePort\<close> returns the preferred port when it
  is free; otherwise the first free port among preferred+1 .. preferred+25, tried in
  ascending order; otherwise what the operating system assigns for port 0. A port it
  returns was either probed free or is the one the operating system assigned (and is
  free whenever the operating system assigns only ports it could bind), and it fails
  with no error of its own: when it fails, none of the 26 candidates was free and the
  error is the one of the ephemeral fallback.
\<close>

theorem chooseAvailablePort_contract:
  "(isPortAvailable env preferredPort \<longrightarrow> chooseAvailablePort env preferredPort = Inr preferredPort)
   \<and> (\<not> isPortAvailable env preferredPort \<and> 1 \<le> k \<and> k \<le> 25
        \<and> isPortAvailable env (preferredPort + k)
        \<and> (\<forall>j. 1 \<le> j \<and> j < k \<longrightarrow> \<not> isPortAvailable env (preferredPort + j))
       \<longrightarrow> chooseAvailablePort env preferredPort = Inr (preferredPort + k))
   \<and> ((\<forall>j. 0 \<le> j \<and> j \<le> 25 \<longrightarrow> \<not> isPortAvailable env (preferredPort + j))
       \<longrightarrow> chooseAvailablePort env preferredPort = getEphemeralPort env)
   \<and> (chooseAvailablePort env preferredPort = Inr port
       \<longrightarrow> isPortAvailable env port \<or> getEphemeralPort env = Inr port)
   \<and> (os_assigns_free_port env \<and> chooseAvailablePort env preferredPort = Inr port
       \<longrightarrow> isPortAvailable env port)
   \<and> (chooseAvailablePort env preferredPort = Inl err
       \<longrightarrow> getEphemeralPort env = Inl err
           \<and> (\<forall>j. 0 \<le> j \<and> j \<le> 25 \<longrightarrow> \<not> isPortAvailable env (preferredPort + j)))"
proof -
  have preferred: "isPortAvailable env preferredPort \<longrightarrow> chooseAvailablePort env preferredPort = Inr preferredPort"
    by (simp add: chooseAvailablePort_def)
  have first_free: "\<not> isPortAvailable env preferredPort \<and> 1 \<le> k \<and> k \<le> 25
        \<and> isPortAvailable env (preferredPort + k)
        \<and> (\<forall>j. 1 \<le> j \<and> j < k \<longrightarrow> \<not> isPortAvailable env (preferredPort + j))
       \<longrightarrow> chooseAvailablePort env preferredPort = Inr (preferredPort + k)"
  proof
    assume a: "\<not> isPortAvailable env preferredPort \<and> 1 \<le> k \<and> k \<le> 25
        \<and> isPortAvailable env (preferredPort + k)
        \<and> (\<forall>j. 1 \<le> j \<and> j < k \<longrightarrow> \<not> isPortAvailable env (preferredPort + j))"
    then have "chooseAvailablePort_from env preferredPort 1 = Inr (preferredPort + k)"
      by (intro chooseAvailablePort_from_first_free) blast+
    with a show "chooseAvailablePort env preferredPort = Inr (preferredPort + k)"
      by (simp add: chooseAvailablePort_def)
  qed
  have fallback: "(\<forall>j. 0 \<le> j \<and> j \<le> 25 \<longrightarrow> \<not> isPortAvailable env (preferredPort + j))
       \<longrightarrow> chooseAvailablePort env preferredPort = getEphemeralPort env"
  proof
    assume busy: "\<forall>j. 0 \<le> j \<and> j \<le> 25 \<longrightarrow> \<not> isPortAvailable env (preferredPort + j)"
    from busy [rule_format, of 0] have "\<not> isPortAvailable env preferredPort" by simp
    moreover have "\<forall>j. 1 \<le> j \<and> j \<le> 25 \<longrightarrow> \<not> isPortAvailable env (preferredPort + j)"
    proof (intro allI impI)
      fix j :: int
      assume "1 \<le> j \<and> j \<le> 25"
      then have "0 \<le> j \<and> j \<le> 25" by simp
      with busy show "\<not> isPortAvailable env (preferredPort + j)" by blast
    qed
    then have "chooseAvailablePort_from env preferredPort 1 = getEphemeralPort env"
      by (rule chooseAvailablePort_from_none_free)
    ultimately show "chooseAvailablePort env preferredPort = getEphemeralPort env"
      by (simp add: chooseAvailablePort_def)
  qed
  have returned: "chooseAvailablePort env preferredPort = Inr port
       \<longrightarrow> isPortAvailable env port \<or> getEphemeralPort env = Inr port"
    using chooseAvailablePort_from_port [of env preferredPort 1 port]
    by (auto simp: chooseAvailablePort_def split: if_splits)
  have free: "os_assigns_free_port env \<and> chooseAvailablePort env preferredPort = Inr port
       \<longrightarrow> isPortAvailable env port"
    using returned getEphemeralPort_free [of env port] by blast
  have failure: "chooseAvailablePort env preferredPort = Inl err
       \<longrightarrow> getEphemeralPort env = Inl err
           \<and> (\<forall>j. 0 \<le> j \<and> j \<le> 25 \<longrightarrow> \<not> isPortAvailable env (preferredPort + j))"
  proof
    assume failed: "chooseAvailablePort env preferredPort = Inl err"
    then have busy0: "\<not> isPortAvailable env preferredPort"
      and "chooseAvailablePort_from env preferredPort 1 = Inl err"
      by (auto simp: chooseAvailablePort_def split: if_splits)
    then have rest: "getEphemeralPort env = Inl err
        \<and> (\<forall>j. 1 \<le> j \<and> j \<le> 25 \<longrightarrow> \<not> isPortAvailable env (preferredPort + j))"
      using chooseAvailablePort_from_error [of env preferredPort 1 err] by simp
    have "\<not> isPortAvailable env (preferredPort + j)" if "0 \<le> j" "j \<le> 25" for j
    proof (cases "j = 0")
      case True
      with busy0 show ?thesis by simp
    next
      case False
      with that have "1 \<le> j" by simp
      with rest that show ?thesis by blast
    qed
    with rest show "getEphemeralPort env = Inl err
           \<and> (\<forall>j. 0 \<le> j \<and> j \<le> 25 \<longrightarrow> \<not> isPortAvailable env (preferredPort + j))"
      by blast
  qed
  show ?thesis
    by (intro conjI preferred first_free fallback returned free failure)
qed


theorem chooseAvailablePort_contract_witness:
  "chooseAvailablePort busy_daemon_host 9222 = Inr 9222
   \<and> chooseAvailablePort busy_daemon_host 9223 = Inr 9226
   \<and> chooseAvailablePort crowded_host 9223 = Inr 49152
   \<and> isPortAvailable crowded_host 49152
   \<and> chooseAvailablePort exhausted_host 9223 =
        Inl (JsError ''Error'' ''listen EADDRINUSE: address already in use 127.0.0.1'' None)
   \<and> \<not> isPortAvailable exhausted_host 9223"
proof -
  note daemon = chooseAvailablePort_contract [of busy_daemon_host]
  note crowded = chooseAvailablePort_contract [of crowded_host 9223]
  note exhausted = chooseAvailablePort_contract [of exhausted_host 9223]
  have "isPortAvailable busy_daemon_host 9222"
    by (simp add: busy_daemon_host_def isPortAvailable_def)
  with daemon [of 9222, THEN conjunct1]
  have preferred: "chooseAvailablePort busy_daemon_host 9222 = Inr 9222"
    by (rule mp)
  have "\<not> isPortAvailable busy_daemon_host 9223 \<and> (1::int) \<le> 3 \<and> (3::int) \<le> 25
        \<and> isPortAvailable busy_daemon_host (9223 + 3)
        \<and> (\<forall>j. 1 \<le> j \<and> j < 3 \<longrightarrow> \<not> isPortAvailable busy_daemon_host (9223 + j))"
    by (auto simp: busy_daemon_host_def isPortAvailable_def)
  with daemon [of 9223 3, THEN conjunct2, THEN conjunct1]
  have "chooseAvailablePort busy_daemon_host 9223 = Inr (9223 + 3)"
    by (rule mp)
  then have next_free: "chooseAvailablePort busy_daemon_host 9223 = Inr 9226"
    by simp
  have "\<forall>j::int. 0 \<le> j \<and> j \<le> 25 \<longrightarrow> \<not> isPortAvailable crowded_host (9223 + j)"
    by (auto simp: crowded_host_def isPortAvailable_def)
  with crowded [THEN conjunct2, THEN conjunct2, THEN conjunct1]
  have "chooseAvailablePort crowded_host 9223 = getEphemeralPort crowded_host"
    by (rule mp)
  then have ephemeral: "chooseAvailablePort crowded_host 9223 = Inr 49152"
    by (simp add: getEphemeralPort_def crowded_host_def)
  have "os_assigns_free_port crowded_host"
    by (simp add: os_assigns_free_port_def crowded_host_def isPortAvailable_def)
  with ephemeral have "os_assigns_free_port crowded_host \<and> chooseAvailablePort crowded_host 9223 = Inr 49152"
    by simp
  with crowded [of _ 49152, THEN conjunct2, THEN conjunct2, THEN conjunct2, THEN conjunct2, THEN conjunct1]
  have free: "isPortAvailable crowded_host 49152"
    by (rule mp)
  have "\<forall>j::int. 0 \<le> j \<and> j \<le> 25 \<longrightarrow> \<not> isPortAvailable exhausted_host (9223 + j)"
    by (simp add: exhausted_host_def isPortAvailable_def)
  with exhausted [THEN conjunct2, THEN conjunct2, THEN conjunct1]
  have "chooseAvailablePort exhausted_host 9223 = getEphemeralPort exhausted_host"
    by (rule mp)
  then have failed: "chooseAvailablePort exhausted_host 9223 =
        Inl (JsError ''Error'' ''listen EADDRINUSE: address already in use 127.0.0.1'' None)"
    by (simp add: getEphemeralPort_def exhausted_host_def)
  with exhausted [of _ _ "JsError ''Error'' ''listen EADDRINUSE: address already in use 127.0.0.1'' None",
      THEN conjunct2, THEN conjunct2, THEN conjunct2, THEN conjunct2, THEN conjunct2]
  have "getEphemeralPort exhausted_host =
          Inl (JsError ''Error'' ''listen EADDRINUSE: address already in use 127.0.0.1'' None)
        \<and> (\<forall>j. 0 \<le> j \<and> j \<le> 25 \<longrightarrow> \<not> isPortAvailable exhausted_host (9223 + j))"
    by (rule mp)
  then have "(0::int) \<le> 0 \<and> (0::int) \<le> 25 \<longrightarrow> \<not> isPortAvailable exhausted_host (9223 + 0)"
    by (elim conjE allE)
  then have all_busy: "\<not> isPortAvailable exhausted_host 9223"
    by simp
  show ?thesis
    by (intro conjI preferred next_free ephemeral free failed all_busy)
qed

section \<open>Truncation of the rendered content\<close>

lemma prefix_drop_bound:
  assumes p: "prefix pat (drop j s)" and ne: "pat \<noteq> []"
  shows "j + length pat \<le> length s"
proof -
  from prefix_length_le [OF p] have "length pat \<le> length s - j" by simp
  moreover from ne have "0 < length pat" by simp
  ultimately show ?thesis by arith
qed

lemma lastIndexOf_from_greatest:
  "i \<le> k \<Longrightarrow> prefix pat (drop i s) \<Longrightarrow>
   (\<forall>j. i < j \<and> j \<le> k \<longrightarrow> \<not> prefix pat (drop j s)) \<Longrightarrow>
   lastIndexOf_from s pat k = int i"
proof (induction k)
  case 0
  then show ?case by simp
next
  case (Suc k)
  show ?case
  proof (cases "i = Suc k")
    case True
    with Suc.prems show ?thesis by simp
  next
    case False
    with Suc.prems have "i \<le> k" and "\<not> prefix pat (drop (Suc k) s)" by auto
    moreover have "lastIndexOf_from s pat k = int i"
      using Suc.IH \<open>i \<le> k\<close> Suc.prems by auto
    ultimately show ?thesis by simp
  qed
qed

lemma lastIndexOf_from_result:
  "lastIndexOf_from s pat k = r \<Longrightarrow>
   r = - 1 \<or> (0 \<le> r \<and> nat r \<le> k \<and> prefix pat (drop (nat r) s))"
proof (induction k arbitrary: r)
  case 0
  then show ?case by (auto split: if_splits)
next
  case (Suc k)
  show ?case
  proof (cases "prefix pat (drop (Suc k) s)")
    case True
    with Suc.prems have r: "r = int (Suc k)" by simp
    then have "nat r = Suc k" by (simp only: nat_int)
    with r True show ?thesis by simp
  next
    case False
    with Suc.prems have "lastIndexOf_from s pat k = r" by simp
    from Suc.IH [OF this] show ?thesis by auto
  qed
qed

lemma length_paragraph_break: "length paragraph_break = 2"
  by (simp add: paragraph_break_def)

lemma lastIndexOf_break_greatest:
  assumes len: "2000 < length c" and i: "i \<le> 2000" and b: "break_at c i"
    and last: "\<forall>j. i < j \<and> j \<le> 2000 \<longrightarrow> \<not> break_at c j"
  shows "lastIndexOf c paragraph_break 2000 = int i"
proof -
  let ?k = "min 2000 (length c - 2)"
  have ne: "paragraph_break \<noteq> []" by (simp add: paragraph_break_def)
  from b have "i + 2 \<le> length c"
    using prefix_drop_bound [of paragraph_break i c] ne
    by (simp add: break_at_def length_paragraph_break)
  with i have ik: "i \<le> ?k" by simp
  have "lastIndexOf_from c paragraph_break ?k = int i"
  proof (rule lastIndexOf_from_greatest [OF ik])
    show "prefix paragraph_break (drop i c)" using b by (simp add: break_at_def)
    show "\<forall>j. i < j \<and> j \<le> ?k \<longrightarrow> \<not> prefix paragraph_break (drop j c)"
      using last by (simp add: break_at_def)
  qed
  with len show ?thesis by (simp add: lastIndexOf_def length_paragraph_break)
qed

lemma lastIndexOf_break_result:
  assumes "lastIndexOf c paragraph_break 2000 = r"
  shows "r = - 1 \<or> (0 \<le> r \<and> nat r \<le> 2000 \<and> break_at c (nat r))"
proof (cases "length c < length paragraph_break")
  case True
  with assms show ?thesis by (simp add: lastIndexOf_def)
next
  case False
  with assms have "lastIndexOf_from c paragraph_break (min 2000 (length c - length paragraph_break)) = r"
    by (simp add: lastIndexOf_def)
  from lastIndexOf_from_result [OF this] show ?thesis
    by (auto simp: break_at_def)
qed

lemma cut_content_at_break:
  assumes "truncate'" "2000 < length c" "1000 < i" "i \<le> 2000" "break_at c i"
    "\<forall>j. i < j \<and> j \<le> 2000 \<longrightarrow> \<not> break_at c j"
  shows "cut_content truncate' c = take i c @ truncation_marker"
  using assms lastIndexOf_break_greatest [of c i]
  by (simp add: cut_content_def)

lemma cut_content_hard:
  assumes "truncate'" "2000 < length c" "\<forall>j. 1000 < j \<and> j \<le> 2000 \<longrightarrow> \<not> break_at c j"
  shows "cut_content truncate' c = take 2000 c @ truncation_marker"
proof -
  have "\<not> 1000 < lastIndexOf c paragraph_break 2000"
  proof
    assume gt: "1000 < lastIndexOf c paragraph_break 2000"
    from lastIndexOf_break_result [OF refl, of c] gt
    have "nat (lastIndexOf c paragraph_break 2000) \<le> 2000"
      and "break_at c (nat (lastIndexOf c paragraph_break 2000))" by auto
    moreover from gt have "1000 < nat (lastIndexOf c paragraph_break 2000)" by simp
    ultimately show False using assms(3) by blast
  qed
  with assms(1,2) show ?thesis by (simp add: cut_content_def)
qed


lemma cut_content_length:
  assumes "truncate'" "2000 < length c"
  shows "length (cut_content truncate' c) \<le> 2000 + length truncation_marker"
proof (cases "1000 < lastIndexOf c paragraph_break 2000")
  case True
  with lastIndexOf_break_result [OF refl, of c]
  have "nat (lastIndexOf c paragraph_break 2000) \<le> 2000" by auto
  with True assms show ?thesis by (simp add: cut_content_def)
next
  case False
  with assms show ?thesis by (simp add: cut_content_def)
qed

lemma parseHtmlToContent_content:
  "finalContent_of env html url = Inr c \<Longrightarrow>
   \<exists>result. parseHtmlToContent env html url truncate' = Inr result
      \<and> parsed_content result = cut_content truncate' c"
  by (auto simp: finalContent_of_def parseHtmlToContent_def render_document_def split: sum.splits)

text \<open>
  C3 (amended): let \<open>c\<close> be the rendered content of the markup (the converted text,
  trimmed). When \<open>truncate\<close> is true and \<open>c\<close> is longer than 2000 code units,
  \<open>parseHtmlToContent\<close> cuts at the last paragraph break that starts at an offset
  \<open>i\<close> with \<open>1000 < i \<le> 2000\<close>, or at exactly 2000 when no paragraph break starts at
  such an offset, and appends the fixed truncation marker after the cut (so the result
  is at most 2000 code units plus the marker). Content of length at most 2000 is
  returned as it is, with no marker appended; with \<open>truncate\<close> false the content is
  never cut and no marker is appended to it (it contains the marker only if the
  rendered content already did).
\<close>

theorem parseHtmlToContent_truncation:
  "finalContent_of env html url = Inr c \<longrightarrow>
   (\<exists>result. parseHtmlToContent env html url truncate' = Inr result
      \<and> (truncate' \<and> 2000 < length c \<and> 1000 < i \<and> i \<le> 2000 \<and> break_at c i
           \<and> (\<forall>j. i < j \<and> j \<le> 2000 \<longrightarrow> \<not> break_at c j)
          \<longrightarrow> parsed_content result = take i c @ truncation_marker)
      \<and> (truncate' \<and> 2000 < length c \<and> (\<forall>j. 1000 < j \<and> j \<le> 2000 \<longrightarrow> \<not> break_at c j)
          \<longrightarrow> parsed_content result = take 2000 c @ truncation_marker)
      \<and> (truncate' \<and> 2000 < length c
          \<longrightarrow> length (parsed_content result) \<le> 2000 + length truncation_marker)
      \<and> (length c \<le> 2000 \<longrightarrow> parsed_content result = c)
      \<and> (\<not> truncate' \<longrightarrow> parsed_content result = c))"
proof
  assume "finalContent_of env html url = Inr c"
  from parseHtmlToContent_content [OF this, of truncate'] obtain result
    where r: "parseHtmlToContent env html url truncate' = Inr result"
      and c: "parsed_content result = cut_content truncate' c"
    by blast
  have at_break: "truncate' \<and> 2000 < length c \<and> 1000 < i \<and> i \<le> 2000 \<and> break_at c i
           \<and> (\<forall>j. i < j \<and> j \<le> 2000 \<longrightarrow> \<not> break_at c j)
          \<longrightarrow> parsed_content result = take i c @ truncation_marker"
    unfolding c using cut_content_at_break [of truncate' c i] by blast
  have hard: "truncate' \<and> 2000 < length c \<and> (\<forall>j. 1000 < j \<and> j \<le> 2000 \<longrightarrow> \<not> break_at c j)
          \<longrightarrow> parsed_content result = take 2000 c @ truncation_marker"
    unfolding c using cut_content_hard [of truncate' c] by blast
  have bound: "truncate' \<and> 2000 < length c
          \<longrightarrow> length (parsed_content result) \<le> 2000 + length truncation_marker"
    unfolding c using cut_content_length [of truncate' c] by blast
  have short: "length c \<le> 2000 \<longrightarrow> parsed_content result = c"
    unfolding c by (simp add: cut_content_def)
  have full: "\<not> truncate' \<longrightarrow> parsed_content result = c"
    unfolding c by (simp add: cut_content_def)
  show "\<exists>result. parseHtmlToContent env html url truncate' = Inr result
      \<and> (truncate' \<and> 2000 < length c \<and> 1000 < i \<and> i \<le> 2000 \<and> break_at c i
           \<and> (\<forall>j. i < j \<and> j \<le> 2000 \<longrightarrow> \<not> break_at c j)
          \<longrightarrow> parsed_content result = take i c @ truncation_marker)
      \<and> (truncate' \<and> 2000 < length c \<and> (\<forall>j. 1000 < j \<and> j \<le> 2000 \<longrightarrow> \<not> break_at c j)
          \<longrightarrow> parsed_content result = take 2000 c @ truncation_marker)
      \<and> (truncate' \<and> 2000 < length c
          \<longrightarrow> length (parsed_content result) \<le> 2000 + length truncation_marker)
      \<and> (length c \<le> 2000 \<longrightarrow> parsed_content result = c)
      \<and> (\<not> truncate' \<longrightarrow> parsed_content result = c)"
    by (intro exI [of _ result] conjI r at_break hard bound short full)
qed

lemma readable_page_env_finalContent:
  "finalContent_of (readable_page_env html title_text body_markup body_text markdown) html url =
     Inr (trim markdown)"
  by (simp add: finalContent_of_def readable_page_env_def answers_for_def readable_document_def
      markdown_of_def article_of_def or_else_def truthy_def article_markup_def)

lemma readable_page_env_title:
  "parseHtmlToContent (readable_page_env html title_text body_markup body_text markdown) html url truncate' =
     Inr result \<Longrightarrow> parsed_title result = title_text"
  by (auto simp: parseHtmlToContent_def readable_page_env_def answers_for_def readable_document_def
      render_document_def article_of_def or_else_def truthy_def)

lemma readable_page_env_parsed:
  "parseHtmlToContent (readable_page_env html title_text body_markup body_text markdown) html url truncate' =
     Inr \<lparr>parsed_title = title_text, parsed_content = cut_content truncate' (trim markdown)\<rparr>"
  by (simp add: parseHtmlToContent_def readable_page_env_def answers_for_def readable_document_def
      render_document_def markdown_of_def article_of_def or_else_def truthy_def article_markup_def)

lemma unreadable_page_env_parsed:
  "parseHtmlToContent (unreadable_page_env html title_text body_markup body_text markdown) html url truncate' =
     Inr \<lparr>parsed_title = title_text, parsed_content = cut_content truncate' (trim markdown)\<rparr>"
  by (simp add: parseHtmlToContent_def unreadable_page_env_def answers_for_def
      render_document_def markdown_of_def article_of_def or_else_def truthy_def)

lemma trim_fenced_quoting_text: "trim (fenced quoting_text) = fenced quoting_text"
  by (simp add: trim_def isWhiteSpace_def fenced_def code_fence_def quoting_text_def
      truncation_marker_def)

text \<open>
  C3, as stated, ends with: with \<open>truncate\<close> false the content never contains the marker.
  The source returns the rendered content as it is, so a page whose own text holds the
  marker comes back containing it, with \<open>truncate\<close> false and nothing cut. Here the page
  shows the tool's truncation notice, after a blank line, as preformatted code, which
  the conversion to markdown copies between two fences without collapsing the blank
  line or escaping the brackets. The result is the same whether Readability keeps the
  body as the article or finds no article in it.
\<close>

theorem parseHtmlToContent_marker_counterexample:
  "parseHtmlToContent notice_page_env notice_page ''https://example.com'' False =
     Inr \<lparr>parsed_title = ''Notice'', parsed_content = fenced quoting_text\<rparr>
   \<and> parseHtmlToContent
       (unreadable_page_env notice_page ''Notice'' (''<pre><code>'' @ quoting_text @ ''</code></pre>'')
          quoting_text (fenced quoting_text))
       notice_page ''https://example.com'' False =
     Inr \<lparr>parsed_title = ''Notice'', parsed_content = fenced quoting_text\<rparr>
   \<and> fenced quoting_text =
       code_fence @
       [CHR 0x0A] @ ''The tool ends a cut page with:'' @ [CHR 0x0A, CHR 0x0A]
         @ ''[... truncated, use --full for complete content ...]'' @ [CHR 0x0A] @ code_fence
   \<and> str_includes (fenced quoting_text) truncation_marker = True"
proof -
  have kept: "parseHtmlToContent notice_page_env notice_page ''https://example.com'' False =
     Inr \<lparr>parsed_title = ''Notice'', parsed_content = fenced quoting_text\<rparr>"
    unfolding notice_page_env_def
    by (simp add: readable_page_env_parsed cut_content_def trim_fenced_quoting_text)
  have none: "parseHtmlToContent
       (unreadable_page_env notice_page ''Notice'' (''<pre><code>'' @ quoting_text @ ''</code></pre>'')
          quoting_text (fenced quoting_text))
       notice_page ''https://example.com'' False =
     Inr \<lparr>parsed_title = ''Notice'', parsed_content = fenced quoting_text\<rparr>"
    by (simp only: unreadable_page_env_parsed cut_content_def trim_fenced_quoting_text simp_thms if_False)
  have spelled: "fenced quoting_text =
       code_fence @
       [CHR 0x0A] @ ''The tool ends a cut page with:'' @ [CHR 0x0A, CHR 0x0A]
         @ ''[... truncated, use --full for complete content ...]'' @ [CHR 0x0A] @ code_fence"
    by (simp add: fenced_def quoting_text_def truncation_marker_def)
  have marked: "str_includes (fenced quoting_text) truncation_marker = True"
    by (simp add: fenced_def code_fence_def quoting_text_def truncation_marker_def)
  from kept none spelled marked show ?thesis
    by (intro conjI)
qed

lemma trim_unchanged:
  assumes "s \<noteq> []" "\<not> isWhiteSpace (hd s)" "\<not> isWhiteSpace (last s)"
  shows "trim s = s"
proof -
  from assms have "dropWhile isWhiteSpace s = s"
    by (simp add: dropWhile_eq_self_iff)
  moreover from assms have "dropWhile isWhiteSpace (rev s) = rev s"
    by (simp add: dropWhile_eq_self_iff hd_rev)
  ultimately show ?thesis by (simp add: trim_def)
qed

lemma not_break_replicate:
  "x \<noteq> CHR 0x0A \<Longrightarrow> \<not> break_at (replicate n x) j"
  by (cases "n - j") (simp_all add: break_at_def paragraph_break_def)

lemma trim_long_text: "trim long_text = long_text"
  by (rule trim_unchanged) (simp_all add: long_text_def isWhiteSpace_def)

lemma trim_two_paragraphs: "trim two_paragraphs = two_paragraphs"
  by (rule trim_unchanged) (simp_all add: two_paragraphs_def isWhiteSpace_def paragraph_break_def)

lemma two_paragraphs_break: "break_at two_paragraphs 1500"
  by (simp add: break_at_def two_paragraphs_def)

lemma two_paragraphs_last_break:
  assumes "1500 < j"
  shows "\<not> break_at two_paragraphs j"
proof -
  from assms obtain m where j: "j = 1500 + Suc m"
    by (metis less_imp_Suc_add add_Suc_right)
  have "drop j two_paragraphs = drop m (CHR 0x0A # replicate 1500 (CHR ''b''))"
    by (simp add: j two_paragraphs_def paragraph_break_def)
  also have "\<not> prefix paragraph_break \<dots>"
  proof (cases m)
    case 0
    have "replicate 1500 (CHR ''b'') = CHR ''b'' # replicate 1499 (CHR ''b'')"
      by (simp add: replicate_Suc [symmetric] del: replicate_Suc)
    with 0 show ?thesis by (simp add: paragraph_break_def)
  next
    case (Suc m')
    have "\<not> break_at (replicate 1500 (CHR ''b'')) m'"
      by (rule not_break_replicate) simp
    with Suc show ?thesis by (simp add: break_at_def)
  qed
  finally show ?thesis by (simp add: break_at_def)
qed

theorem parseHtmlToContent_truncation_witness:
  "parseHtmlToContent long_page_env long_page ''https://example.com'' True =
     Inr \<lparr>parsed_title = ''Long'', parsed_content = replicate 2000 (CHR ''x'') @ truncation_marker\<rparr>
   \<and> parseHtmlToContent two_paragraph_page_env two_paragraph_page ''https://example.com'' True =
     Inr \<lparr>parsed_title = ''Long'', parsed_content = replicate 1500 (CHR ''a'') @ truncation_marker\<rparr>
   \<and> parseHtmlToContent long_page_env long_page ''https://example.com'' False =
     Inr \<lparr>parsed_title = ''Long'', parsed_content = long_text\<rparr>
   \<and> parseHtmlToContent hello_page_env hello_page ''https://example.com'' True =
     Inr \<lparr>parsed_title = ''Hello'', parsed_content = ''Hello World''\<rparr>"
proof -
  let ?url = "''https://example.com''"
  have long_final: "finalContent_of long_page_env long_page ?url = Inr long_text"
    by (simp add: long_page_env_def readable_page_env_finalContent trim_long_text)
  have two_final: "finalContent_of two_paragraph_page_env two_paragraph_page ?url = Inr two_paragraphs"
    by (simp add: two_paragraph_page_env_def readable_page_env_finalContent trim_two_paragraphs)
  have hello_final: "finalContent_of hello_page_env hello_page ?url = Inr ''Hello World''"
    by (simp add: hello_page_env_def readable_page_env_finalContent trim_def isWhiteSpace_def)
  have no_break: "True \<and> 2000 < length long_text
      \<and> (\<forall>j. 1000 < j \<and> j \<le> 2000 \<longrightarrow> \<not> break_at long_text j)"
    by (simp add: long_text_def not_break_replicate)
  have one_break: "True \<and> 2000 < length two_paragraphs \<and> (1000::nat) < 1500 \<and> (1500::nat) \<le> 2000
      \<and> break_at two_paragraphs 1500
      \<and> (\<forall>j. 1500 < j \<and> j \<le> 2000 \<longrightarrow> \<not> break_at two_paragraphs j)"
    using two_paragraphs_break two_paragraphs_last_break
    by (simp add: two_paragraphs_def paragraph_break_def)
  from parseHtmlToContent_truncation [of long_page_env long_page ?url long_text True] long_final no_break
  obtain r1 where r1: "parseHtmlToContent long_page_env long_page ?url True = Inr r1"
    and "parsed_content r1 = take 2000 long_text @ truncation_marker"
    by blast
  then have c1: "parsed_content r1 = replicate 2000 (CHR ''x'') @ truncation_marker"
    by (simp add: long_text_def)
  from parseHtmlToContent_truncation [of two_paragraph_page_env two_paragraph_page ?url two_paragraphs True 1500]
    two_final one_break
  obtain r2 where r2: "parseHtmlToContent two_paragraph_page_env two_paragraph_page ?url True = Inr r2"
    and "parsed_content r2 = take 1500 two_paragraphs @ truncation_marker"
    by blast
  then have c2: "parsed_content r2 = replicate 1500 (CHR ''a'') @ truncation_marker"
    by (simp add: two_paragraphs_def)
  from parseHtmlToContent_truncation [of long_page_env long_page ?url long_text False] long_final
  obtain r3 where r3: "parseHtmlToContent long_page_env long_page ?url False = Inr r3"
    and c3: "parsed_content r3 = long_text"
    by blast
  have "length ''Hello World'' \<le> 2000" by simp
  with parseHtmlToContent_truncation [of hello_page_env hello_page ?url "''Hello World''" True]
    hello_final
  obtain r4 where r4: "parseHtmlToContent hello_page_env hello_page ?url True = Inr r4"
    and c4: "parsed_content r4 = ''Hello World''"
    by blast
  from r1 c1 readable_page_env_title [OF r1 [unfolded long_page_env_def]] have "parseHtmlToContent long_page_env long_page ?url True =
     Inr \<lparr>parsed_title = ''Long'', parsed_content = replicate 2000 (CHR ''x'') @ truncation_marker\<rparr>"
    by simp
  moreover from r2 c2 readable_page_env_title [OF r2 [unfolded two_paragraph_page_env_def]] have "parseHtmlToContent two_paragraph_page_env two_paragraph_page ?url True =
     Inr \<lparr>parsed_title = ''Long'', parsed_content = replicate 1500 (CHR ''a'') @ truncation_marker\<rparr>"
    by simp
  moreover from r3 c3 readable_page_env_title [OF r3 [unfolded long_page_env_def]] have "parseHtmlToContent long_page_env long_page ?url False =
     Inr \<lparr>parsed_title = ''Long'', parsed_content = long_text\<rparr>"
    by simp
  moreover from r4 c4 readable_page_env_title [OF r4 [unfolded hello_page_env_def]] have "parseHtmlToContent hello_page_env hello_page ?url True =
     Inr \<lparr>parsed_title = ''Hello'', parsed_content = ''Hello World''\<rparr>"
    by simp
  ultimately show ?thesis by blast
qed

section \<open>The search chain\<close>

lemma searchDuckDuckGo_fallback:
  "checked_response w (''https://html.duckduckgo.com/html/?q='' @ encodeURIComponent w query) = Inl err
     \<Longrightarrow> searchDuckDuckGo w query num = Inl err"
  "checked_response w (''https://html.duckduckgo.com/html/?q='' @ encodeURIComponent w query) = Inr html
     \<Longrightarrow> extractDuckDuckGoResults w html num = Inr []
     \<Longrightarrow> searchDuckDuckGo w query num = searchDuckDuckGoLite w query num"
  "checked_response w (''https://html.duckduckgo.com/html/?q='' @ encodeURIComponent w query) = Inr html
     \<Longrightarrow> extractDuckDuckGoResults w html num = Inr (r # rs)
     \<Longrightarrow> searchDuckDuckGo w query num = Inr (r # rs)"
  by (simp_all add: searchDuckDuckGo_def)

lemma searchDuckDuckGo_extract_error:
  "checked_response w (''https://html.duckduckgo.com/html/?q='' @ encodeURIComponent w query) = Inr html
     \<Longrightarrow> extractDuckDuckGoResults w html num = Inl err
     \<Longrightarrow> searchDuckDuckGo w query num = Inl err"
  by (simp add: searchDuckDuckGo_def)

lemma lite_listing_web_lite:
  "searchDuckDuckGoLite (lite_listing_web full_response) ''q'' 5 =
     Inr [\<lparr>result_title = ''Example Domain'', result_link = ''https://example.com/'',
            result_snippet = ''This domain is for use in illustrative examples.''\<rparr>]"
  by (simp add: searchDuckDuckGoLite_def checked_response_def lite_listing_web_def ok_response_def
      direct_link_def trim_def isWhiteSpace_def truthy_def or_else_def)

lemma lite_listing_web_full:
  "checked_response (lite_listing_web full_response)
     (''https://html.duckduckgo.com/html/?q='' @ encodeURIComponent (lite_listing_web full_response) ''q'') =
     (if status full_response = 202 then Inl (Error ''DuckDuckGo returned 202 (blocked)'')
      else if \<not> ok full_response then
        Inl (Error (''Search failed: '' @ number_to_string (status full_response) @ '' ''
                    @ statusText full_response))
      else response_text full_response)"
  by (simp add: checked_response_def lite_listing_web_def)

text \<open>
  C1, as stated, has an error at any step of the chain treated as zero results, so that
  the next step is attempted. That fails at the full markup step of the secondary
  engine, whose error leaves \<open>searchDuckDuckGo\<close> before the lightweight endpoint is
  asked: with the primary engine blocked and the full markup endpoint answering 202,
  the lightweight endpoint, which would list a result, is never asked, and the search
  ends empty.
\<close>

theorem searchWebFromContext_skips_lite_counterexample:
  "searchDuckDuckGoLite (lite_listing_web throttled_response) ''q'' 5 =
     Inr [\<lparr>result_title = ''Example Domain'', result_link = ''https://example.com/'',
            result_snippet = ''This domain is for use in illustrative examples.''\<rparr>]
   \<and> searchWebFromContext blocked_browser (lite_listing_web throttled_response) ''q'' 5 =
       (Inr [],
        [''Google search failed: Google blocked automated access (Sorry...)'',
         ''Google returned no results. Falling back to DuckDuckGo...'',
         ''DuckDuckGo search failed: DuckDuckGo returned 202 (blocked)''])"
proof -
  have primary: "searchGoogleFromContext blocked_browser (lite_listing_web throttled_response) ''q'' 5 =
      Inl (Error ''Google blocked automated access (Sorry...)'')"
    by (simp add: searchGoogleFromContext_def blocked_browser_def captcha_page_def or_else_def truthy_def)
  have secondary: "searchDuckDuckGo (lite_listing_web throttled_response) ''q'' 5 =
      Inl (Error ''DuckDuckGo returned 202 (blocked)'')"
    using lite_listing_web_full [of throttled_response]
    by (intro searchDuckDuckGo_fallback(1)) (simp add: throttled_response_def)
  have "searchWebFromContext blocked_browser (lite_listing_web throttled_response) ''q'' 5 =
       (Inr [],
        [''Google search failed: Google blocked automated access (Sorry...)'',
         ''Google returned no results. Falling back to DuckDuckGo...'',
         ''DuckDuckGo search failed: DuckDuckGo returned 202 (blocked)''])"
    by (simp add: searchWebFromContext_def primary secondary Error_def)
  with lite_listing_web_lite show ?thesis
    by simp
qed

text \<open>
  C1 (amended): for every query and requested result count, \<open>searchWebFromContext\<close> never throws:
  its result is always a list. An error of the primary engine (a blocked-access error
  included) is caught, logged and treated as zero results, so the secondary engine is
  tried; an error of the secondary engine is caught and logged as well; and when both
  fail or yield nothing the result is the empty list. Inside the secondary engine the
  lightweight endpoint is tried when, and only when, the full markup endpoint answered
  and its page gave zero results: an error of the full markup step (a 202, a non-success
  status, a network or decoding error) is not followed by the lightweight step, it ends
  the search with the empty list, whatever the lightweight endpoint would have answered.
\<close>

theorem searchWebFromContext_never_throws:
  "(\<exists>results. fst (searchWebFromContext browser w query numResults) = Inr results)
   \<and> (searchGoogleFromContext browser w query numResults = Inl err \<longrightarrow>
        fst (searchWebFromContext browser w query numResults) =
          Inr (case searchDuckDuckGo w query numResults of Inr found \<Rightarrow> found | Inl err2 \<Rightarrow> [])
        \<and> (''Google search failed: '' @ err_message err)
              \<in> set (snd (searchWebFromContext browser w query numResults)))
   \<and> (searchGoogleFromContext browser w query numResults = Inr [] \<longrightarrow>
        fst (searchWebFromContext browser w query numResults) =
          Inr (case searchDuckDuckGo w query numResults of Inr found \<Rightarrow> found | Inl err2 \<Rightarrow> []))
   \<and> (searchGoogleFromContext browser w query numResults = Inr (r # rs) \<longrightarrow>
        searchWebFromContext browser w query numResults = (Inr (r # rs), []))
   \<and> ((searchGoogleFromContext browser w query numResults = Inl err
         \<or> searchGoogleFromContext browser w query numResults = Inr [])
        \<and> searchDuckDuckGo w query numResults = Inl err2 \<longrightarrow>
        fst (searchWebFromContext browser w query numResults) = Inr []
        \<and> (''DuckDuckGo search failed: '' @ err_message err2)
              \<in> set (snd (searchWebFromContext browser w query numResults)))
   \<and> ((searchGoogleFromContext browser w query numResults = Inl err
         \<or> searchGoogleFromContext browser w query numResults = Inr [])
        \<and> checked_response w (''https://html.duckduckgo.com/html/?q='' @ encodeURIComponent w query) = Inl err3 \<longrightarrow>
        fst (searchWebFromContext browser w query numResults) = Inr []
        \<and> (''DuckDuckGo search failed: '' @ err_message err3)
              \<in> set (snd (searchWebFromContext browser w query numResults)))
   \<and> ((searchGoogleFromContext browser w query numResults = Inl err
         \<or> searchGoogleFromContext browser w query numResults = Inr [])
        \<and> checked_response w (''https://html.duckduckgo.com/html/?q='' @ encodeURIComponent w query) = Inr html
        \<and> extractDuckDuckGoResults w html numResults = Inl err3 \<longrightarrow>
        fst (searchWebFromContext browser w query numResults) = Inr []
        \<and> (''DuckDuckGo search failed: '' @ err_message err3)
              \<in> set (snd (searchWebFromContext browser w query numResults)))
   \<and> ((searchGoogleFromContext browser w query numResults = Inl err
         \<or> searchGoogleFromContext browser w query numResults = Inr [])
        \<and> checked_response w (''https://html.duckduckgo.com/html/?q='' @ encodeURIComponent w query) = Inr html
        \<and> extractDuckDuckGoResults w html numResults = Inr [] \<longrightarrow>
        fst (searchWebFromContext browser w query numResults) =
          Inr (case searchDuckDuckGoLite w query numResults of Inr found \<Rightarrow> found | Inl err4 \<Rightarrow> []))
   \<and> ((searchGoogleFromContext browser w query numResults = Inl err
         \<or> searchGoogleFromContext browser w query numResults = Inr [])
        \<and> checked_response w (''https://html.duckduckgo.com/html/?q='' @ encodeURIComponent w query) = Inr html
        \<and> extractDuckDuckGoResults w html numResults = Inr (f # fs) \<longrightarrow>
        fst (searchWebFromContext browser w query numResults) = Inr (f # fs))"
proof -
  have returns: "\<exists>results. fst (searchWebFromContext browser w query numResults) = Inr results"
    by (auto simp: searchWebFromContext_def Let_def split: sum.splits)
  have primary_error: "searchGoogleFromContext browser w query numResults = Inl err \<longrightarrow>
        fst (searchWebFromContext browser w query numResults) =
          Inr (case searchDuckDuckGo w query numResults of Inr found \<Rightarrow> found | Inl err2 \<Rightarrow> [])
        \<and> (''Google search failed: '' @ err_message err)
              \<in> set (snd (searchWebFromContext browser w query numResults))"
    by (auto simp: searchWebFromContext_def Let_def split: sum.splits)
  have primary_empty: "searchGoogleFromContext browser w query numResults = Inr [] \<longrightarrow>
        fst (searchWebFromContext browser w query numResults) =
          Inr (case searchDuckDuckGo w query numResults of Inr found \<Rightarrow> found | Inl err2 \<Rightarrow> [])"
    by (auto simp: searchWebFromContext_def Let_def split: sum.splits)
  have primary_found: "searchGoogleFromContext browser w query numResults = Inr (r # rs) \<longrightarrow>
        searchWebFromContext browser w query numResults = (Inr (r # rs), [])"
    by (simp add: searchWebFromContext_def Let_def)
  have all_fail: "(searchGoogleFromContext browser w query numResults = Inl err
         \<or> searchGoogleFromContext browser w query numResults = Inr [])
        \<and> searchDuckDuckGo w query numResults = Inl err2 \<longrightarrow>
        fst (searchWebFromContext browser w query numResults) = Inr []
        \<and> (''DuckDuckGo search failed: '' @ err_message err2)
              \<in> set (snd (searchWebFromContext browser w query numResults))"
    by (auto simp: searchWebFromContext_def Let_def)
  let ?full = "checked_response w (''https://html.duckduckgo.com/html/?q='' @ encodeURIComponent w query)"
  have full_error: "(searchGoogleFromContext browser w query numResults = Inl err
         \<or> searchGoogleFromContext browser w query numResults = Inr [])
        \<and> ?full = Inl err3 \<longrightarrow>
        fst (searchWebFromContext browser w query numResults) = Inr []
        \<and> (''DuckDuckGo search failed: '' @ err_message err3)
              \<in> set (snd (searchWebFromContext browser w query numResults))"
    using searchDuckDuckGo_fallback(1) [of w query err3 numResults]
    by (auto simp: searchWebFromContext_def Let_def)
  have extract_error: "(searchGoogleFromContext browser w query numResults = Inl err
         \<or> searchGoogleFromContext browser w query numResults = Inr [])
        \<and> ?full = Inr html \<and> extractDuckDuckGoResults w html numResults = Inl err3 \<longrightarrow>
        fst (searchWebFromContext browser w query numResults) = Inr []
        \<and> (''DuckDuckGo search failed: '' @ err_message err3)
              \<in> set (snd (searchWebFromContext browser w query numResults))"
    using searchDuckDuckGo_extract_error [of w query html numResults err3]
    by (auto simp: searchWebFromContext_def Let_def)
  have full_empty: "(searchGoogleFromContext browser w query numResults = Inl err
         \<or> searchGoogleFromContext browser w query numResults = Inr [])
        \<and> ?full = Inr html \<and> extractDuckDuckGoResults w html numResults = Inr [] \<longrightarrow>
        fst (searchWebFromContext browser w query numResults) =
          Inr (case searchDuckDuckGoLite w query numResults of Inr found \<Rightarrow> found | Inl err4 \<Rightarrow> [])"
    using searchDuckDuckGo_fallback(2) [of w query html numResults]
    by (auto simp: searchWebFromContext_def Let_def split: sum.splits)
  have full_found: "(searchGoogleFromContext browser w query numResults = Inl err
         \<or> searchGoogleFromContext browser w query numResults = Inr [])
        \<and> ?full = Inr html \<and> extractDuckDuckGoResults w html numResults = Inr (f # fs) \<longrightarrow>
        fst (searchWebFromContext browser w query numResults) = Inr (f # fs)"
    using searchDuckDuckGo_fallback(3) [of w query html numResults f fs]
    by (auto simp: searchWebFromContext_def Let_def)
  show ?thesis
    by (intro conjI returns primary_error primary_empty primary_found all_fail
        full_error extract_error full_empty full_found)
qed

lemma blocked_browser_blocked:
  "searchGoogleFromContext blocked_browser w query 5 =
     Inl (Error ''Google blocked automated access (Sorry...)'')"
  by (simp add: searchGoogleFromContext_def blocked_browser_def captcha_page_def or_else_def truthy_def)

lemma throttled_web_blocked:
  "searchDuckDuckGo throttled_web query 5 = Inl (Error ''DuckDuckGo returned 202 (blocked)'')"
  by (simp add: searchDuckDuckGo_def checked_response_def throttled_web_def)

lemma listing_web_results:
  "searchDuckDuckGo listing_web query 5 =
     Inr [\<lparr>result_title = ''Example Title'', result_link = ''https://example.com/page'',
            result_snippet = ''Some snippet text that is long enough.''\<rparr>,
          \<lparr>result_title = ''Encoded Link'', result_link = ''https://example.org/foo'',
            result_snippet = []\<rparr>]"
  by (simp add: searchDuckDuckGo_def checked_response_def ok_response_def
      extractDuckDuckGoResults_def listing_web_def test_listing_def trim_def isWhiteSpace_def
      truthy_def hex_digit_def string_eval)

lemma answering_browser_results:
  "searchGoogleFromContext answering_browser w query 5 = Inr sample_results"
  by (simp add: searchGoogleFromContext_def answering_browser_def sample_results_def)

theorem searchWebFromContext_never_throws_witness:
  "fst (searchWebFromContext blocked_browser throttled_web ''q'' 5) = Inr []
   \<and> ''Google search failed: Google blocked automated access (Sorry...)''
        \<in> set (snd (searchWebFromContext blocked_browser throttled_web ''q'' 5))
   \<and> ''DuckDuckGo search failed: DuckDuckGo returned 202 (blocked)''
        \<in> set (snd (searchWebFromContext blocked_browser throttled_web ''q'' 5))
   \<and> fst (searchWebFromContext blocked_browser listing_web ''q'' 5) =
        Inr [\<lparr>result_title = ''Example Title'', result_link = ''https://example.com/page'',
               result_snippet = ''Some snippet text that is long enough.''\<rparr>,
             \<lparr>result_title = ''Encoded Link'', result_link = ''https://example.org/foo'',
               result_snippet = []\<rparr>]
   \<and> searchWebFromContext answering_browser throttled_web ''q'' 5 = (Inr sample_results, [])
   \<and> fst (searchWebFromContext blocked_browser (lite_listing_web (ok_response ''full'')) ''q'' 5) =
        Inr [\<lparr>result_title = ''Example Domain'', result_link = ''https://example.com/'',
               result_snippet = ''This domain is for use in illustrative examples.''\<rparr>]
   \<and> fst (searchWebFromContext blocked_browser (lite_listing_web throttled_response) ''q'' 5) = Inr []"
proof -
  let ?blocked = "Error ''Google blocked automated access (Sorry...)''"
  let ?throttled = "Error ''DuckDuckGo returned 202 (blocked)''"
  note both = searchWebFromContext_never_throws [of blocked_browser throttled_web "''q''" 5 ?blocked _ _ ?throttled]
  note fallback = searchWebFromContext_never_throws [of blocked_browser listing_web "''q''" 5 ?blocked]
  note direct = searchWebFromContext_never_throws [of answering_browser throttled_web "''q''" 5 _
      "hd sample_results" "tl sample_results"]
  have g: "searchGoogleFromContext blocked_browser throttled_web ''q'' 5 = Inl ?blocked"
    by (rule blocked_browser_blocked)
  have d: "searchDuckDuckGo throttled_web ''q'' 5 = Inl ?throttled"
    by (rule throttled_web_blocked)
  from both [THEN conjunct2, THEN conjunct1] g
  have logged: "''Google search failed: '' @ err_message ?blocked
      \<in> set (snd (searchWebFromContext blocked_browser throttled_web ''q'' 5))"
    by blast
  from both [THEN conjunct2, THEN conjunct2, THEN conjunct2, THEN conjunct2] g d
  have empty: "fst (searchWebFromContext blocked_browser throttled_web ''q'' 5) = Inr []"
    and logged2: "''DuckDuckGo search failed: '' @ err_message ?throttled
      \<in> set (snd (searchWebFromContext blocked_browser throttled_web ''q'' 5))"
    by blast+
  have g2: "searchGoogleFromContext blocked_browser listing_web ''q'' 5 = Inl ?blocked"
    by (rule blocked_browser_blocked)
  from fallback [THEN conjunct2, THEN conjunct1] g2
  have "fst (searchWebFromContext blocked_browser listing_web ''q'' 5) =
          Inr (case searchDuckDuckGo listing_web ''q'' 5 of Inr found \<Rightarrow> found | Inl err2 \<Rightarrow> [])"
    by blast
  then have second: "fst (searchWebFromContext blocked_browser listing_web ''q'' 5) =
        Inr [\<lparr>result_title = ''Example Title'', result_link = ''https://example.com/page'',
               result_snippet = ''Some snippet text that is long enough.''\<rparr>,
             \<lparr>result_title = ''Encoded Link'', result_link = ''https://example.org/foo'',
               result_snippet = []\<rparr>]"
    by (simp add: listing_web_results)
  have "searchGoogleFromContext answering_browser throttled_web ''q'' 5 =
          Inr (hd sample_results # tl sample_results)"
    by (simp add: answering_browser_results sample_results_def)
  with direct [THEN conjunct2, THEN conjunct2, THEN conjunct2, THEN conjunct1]
  have "searchWebFromContext answering_browser throttled_web ''q'' 5 =
          (Inr (hd sample_results # tl sample_results), [])"
    by blast
  then have first: "searchWebFromContext answering_browser throttled_web ''q'' 5 = (Inr sample_results, [])"
    by (simp add: sample_results_def)
  let ?listing = "lite_listing_web (ok_response ''full'')"
  let ?refused = "lite_listing_web throttled_response"
  note third_step = searchWebFromContext_never_throws [of blocked_browser ?listing "''q''" 5 ?blocked
      _ _ _ _ "''full''"]
  note no_third_step = searchWebFromContext_never_throws [of blocked_browser ?refused "''q''" 5 ?blocked
      _ _ _ ?throttled]
  have g3: "searchGoogleFromContext blocked_browser ?listing ''q'' 5 = Inl ?blocked"
    by (rule blocked_browser_blocked)
  have full3: "checked_response ?listing
      (''https://html.duckduckgo.com/html/?q='' @ encodeURIComponent ?listing ''q'') = Inr ''full''"
    using lite_listing_web_full [of "ok_response ''full''"] by (simp add: ok_response_def)
  have none3: "extractDuckDuckGoResults ?listing ''full'' 5 = Inr []"
    by (simp add: extractDuckDuckGoResults_def lite_listing_web_def)
  from third_step [THEN conjunct2, THEN conjunct2, THEN conjunct2, THEN conjunct2, THEN conjunct2,
      THEN conjunct2, THEN conjunct2, THEN conjunct1] g3 full3 none3
  have "fst (searchWebFromContext blocked_browser ?listing ''q'' 5) =
      Inr (case searchDuckDuckGoLite ?listing ''q'' 5 of Inr found \<Rightarrow> found | Inl err4 \<Rightarrow> [])"
    by blast
  then have third: "fst (searchWebFromContext blocked_browser ?listing ''q'' 5) =
        Inr [\<lparr>result_title = ''Example Domain'', result_link = ''https://example.com/'',
               result_snippet = ''This domain is for use in illustrative examples.''\<rparr>]"
    by (simp add: lite_listing_web_lite)
  have g4: "searchGoogleFromContext blocked_browser ?refused ''q'' 5 = Inl ?blocked"
    by (rule blocked_browser_blocked)
  have full4: "checked_response ?refused
      (''https://html.duckduckgo.com/html/?q='' @ encodeURIComponent ?refused ''q'') = Inl ?throttled"
    using lite_listing_web_full [of throttled_response] by (simp add: throttled_response_def)
  from no_third_step [THEN conjunct2, THEN conjunct2, THEN conjunct2, THEN conjunct2, THEN conjunct2,
      THEN conjunct1] g4 full4
  have refused: "fst (searchWebFromContext blocked_browser ?refused ''q'' 5) = Inr []"
    by blast
  from logged logged2 empty second first third refused show ?thesis
    by (simp add: Error_def)
qed

section \<open>Length of the result list\<close>

lemma searchGoogleFromContext_length:
  "searchGoogleFromContext browser w query num = Inr results \<Longrightarrow>
   int (length results) \<le> max 1 (min num 20)"
  by (auto simp: searchGoogleFromContext_def Let_def split: option.splits sum.splits if_splits)

lemma extractDuckDuckGoResults_each_length:
  "extractDuckDuckGoResults_each w els num acc = Inr results \<Longrightarrow>
   int (length results) \<le> max (int (length acc)) num"
proof (induction els arbitrary: acc)
  case Nil
  then show ?case by simp
next
  case (Cons el els)
  show ?case
  proof (cases "int (length acc) \<ge> num")
    case True
    with Cons.prems show ?thesis by simp
  next
    case False
    with Cons.prems have
      "extractDuckDuckGoResults_each w els num acc = Inr results
       \<or> (\<exists>item. extractDuckDuckGoResults_each w els num (acc @ [item]) = Inr results)"
      by (auto simp: Let_def split: sum.splits if_splits)
    then show ?thesis
    proof
      assume "extractDuckDuckGoResults_each w els num acc = Inr results"
      from Cons.IH [OF this] show ?thesis .
    next
      assume "\<exists>item. extractDuckDuckGoResults_each w els num (acc @ [item]) = Inr results"
      then obtain item where "extractDuckDuckGoResults_each w els num (acc @ [item]) = Inr results"
        by blast
      from Cons.IH [OF this] False show ?thesis by simp
    qed
  qed
qed

lemma searchDuckDuckGoLite_each_length:
  "int (length (searchDuckDuckGoLite_each els num acc)) \<le> max (int (length acc)) num"
proof (induction els arbitrary: acc)
  case Nil
  show ?case by simp
next
  case (Cons el els)
  show ?case
  proof (cases "int (length acc) \<ge> num")
    case True
    then show ?thesis by simp
  next
    case False
    have "searchDuckDuckGoLite_each (el # els) num acc = searchDuckDuckGoLite_each els num acc
       \<or> (\<exists>item. searchDuckDuckGoLite_each (el # els) num acc = searchDuckDuckGoLite_each els num (acc @ [item]))"
      using False by (auto simp: Let_def)
    then show ?thesis
    proof
      assume "searchDuckDuckGoLite_each (el # els) num acc = searchDuckDuckGoLite_each els num acc"
      with Cons.IH [of acc] show ?thesis by simp
    next
      assume "\<exists>item. searchDuckDuckGoLite_each (el # els) num acc = searchDuckDuckGoLite_each els num (acc @ [item])"
      then obtain item where "searchDuckDuckGoLite_each (el # els) num acc = searchDuckDuckGoLite_each els num (acc @ [item])"
        by blast
      with Cons.IH [of "acc @ [item]"] False show ?thesis by simp
    qed
  qed
qed

lemma searchDuckDuckGo_length:
  "searchDuckDuckGo w query num = Inr results \<Longrightarrow> int (length results) \<le> max 0 num"
proof -
  assume a: "searchDuckDuckGo w query num = Inr results"
  have full: "int (length rs) \<le> max 0 num" if "extractDuckDuckGoResults w html num = Inr rs" for html rs
    using extractDuckDuckGoResults_each_length [of w _ num "[]" rs] that
    by (simp add: extractDuckDuckGoResults_def)
  have lite: "int (length rs) \<le> max 0 num" if "searchDuckDuckGoLite w query num = Inr rs" for rs
    using searchDuckDuckGoLite_each_length [of _ num "[]"] that
    by (auto simp: searchDuckDuckGoLite_def Let_def split: sum.splits)
  from a show ?thesis
    using full lite
    by (auto simp: searchDuckDuckGo_def Let_def split: sum.splits if_splits)
qed

lemma searchWebFromContext_length:
  assumes "fst (searchWebFromContext browser w query numResults) = Inr results"
  shows "int (length results) \<le> max 1 numResults"
    and "numResults \<le> 20 \<Longrightarrow> int (length results) \<le> max 1 (min numResults 20)"
proof -
  have "int (length results) \<le> max 1 (min numResults 20) \<or> int (length results) \<le> max 0 numResults"
    using assms searchGoogleFromContext_length [of browser w query numResults]
      searchDuckDuckGo_length [of w query numResults]
    by (auto simp: searchWebFromContext_def Let_def split: sum.splits if_splits)
  then show "int (length results) \<le> max 1 numResults"
    and "numResults \<le> 20 \<Longrightarrow> int (length results) \<le> max 1 (min numResults 20)"
    by auto
qed

lemma searchWebOneShot_search_length:
  "fst (searchWebOneShot_search browser w query num) = Inr results \<Longrightarrow>
   int (length results) \<le> max 1 (min num 20)"
  by (auto simp: searchWebOneShot_search_def Let_def split: prod.splits sum.splits)

lemma extractDuckDuckGoResults_each_external:
  "int (length acc) + int k \<le> num \<Longrightarrow>
   extractDuckDuckGoResults_each w (replicate k external_element) num acc =
     Inr (acc @ replicate k external_item)"
proof (induction k arbitrary: acc)
  case 0
  show ?case by simp
next
  case (Suc k)
  from Suc.prems have room: "\<not> num \<le> int (length acc)" by simp
  have "extractDuckDuckGoResults_each w (replicate (Suc k) external_element) num acc =
        extractDuckDuckGoResults_each w (replicate k external_element) num (acc @ [external_item])"
    using room
    by (simp add: external_element_def external_item_def trim_def isWhiteSpace_def truthy_def Let_def)
  also have "\<dots> = Inr ((acc @ [external_item]) @ replicate k external_item)"
    using Suc.prems by (intro Suc.IH) simp
  finally show ?case by (simp add: replicate_app_Cons_same)
qed

lemma blocked_browser_blocked_any:
  "searchGoogleFromContext blocked_browser w query num =
     Inl (Error ''Google blocked automated access (Sorry...)'')"
  by (simp add: searchGoogleFromContext_def blocked_browser_def captcha_page_def or_else_def truthy_def)

lemma long_listing_web_results:
  "21 \<le> num \<Longrightarrow> searchDuckDuckGo long_listing_web query num = Inr (replicate 21 external_item)"
  using extractDuckDuckGoResults_each_external [of "[]" 21 num long_listing_web]
  by (simp add: searchDuckDuckGo_def checked_response_def ok_response_def
      extractDuckDuckGoResults_def long_listing_web_def)

text \<open>
  C6 holds of the primary engine (\<open>searchGoogleFromContext_length\<close>), of the one-shot
  command line, which clamps the count before it calls the orchestrator and slices the
  list after it (\<open>searchWebOneShot_search_length\<close>), and of every path for a count of at
  most 20 (\<open>searchWebFromContext_length\<close>). The orchestrator itself hands the count it is
  given to the secondary engine unclamped, and the daemon hands the orchestrator the
  count of the command: asked for 25 results where the primary engine is blocked and the
  secondary engine lists 21 items, the search returns 21 results, one more than the
  clamped count of 20.
\<close>

theorem searchWebFromContext_exceeds_clamp:
  "fst (searchWebFromContext blocked_browser long_listing_web ''q'' 25) = Inr (replicate 21 external_item)
   \<and> length (replicate 21 external_item) = 21
   \<and> max 1 (min (25::int) 20) = 20"
  by (simp add: searchWebFromContext_def blocked_browser_blocked_any long_listing_web_results)

section \<open>Links of the secondary engine\<close>

lemma extractDuckDuckGoResults_each_external_links:
  "extractDuckDuckGoResults_each w els num acc = Inr results \<Longrightarrow>
   (\<forall>r \<in> set acc. \<not> str_includes (result_link r) ''duckduckgo.com'') \<Longrightarrow>
   (\<forall>r \<in> set results. \<not> str_includes (result_link r) ''duckduckgo.com'')"
proof (induction els arbitrary: acc)
  case Nil
  then show ?case by simp
next
  case (Cons el els)
  show ?case
  proof (cases "int (length acc) \<ge> num")
    case True
    with Cons.prems show ?thesis by simp
  next
    case False
    with Cons.prems(1) have
      "extractDuckDuckGoResults_each w els num acc = Inr results
       \<or> (\<exists>item. \<not> str_includes (result_link item) ''duckduckgo.com''
             \<and> extractDuckDuckGoResults_each w els num (acc @ [item]) = Inr results)"
      by (simp add: Let_def split: sum.splits if_splits option.splits)
        (metis search_result.select_convs(2))+
    then show ?thesis
    proof
      assume "extractDuckDuckGoResults_each w els num acc = Inr results"
      from Cons.IH [OF this Cons.prems(2)] show ?thesis .
    next
      assume "\<exists>item. \<not> str_includes (result_link item) ''duckduckgo.com''
             \<and> extractDuckDuckGoResults_each w els num (acc @ [item]) = Inr results"
      then obtain item where item: "\<not> str_includes (result_link item) ''duckduckgo.com''"
        and rest: "extractDuckDuckGoResults_each w els num (acc @ [item]) = Inr results"
        by blast
      from item Cons.prems(2)
      have "\<forall>r \<in> set (acc @ [item]). \<not> str_includes (result_link r) ''duckduckgo.com''"
        by simp
      from Cons.IH [OF rest this] show ?thesis .
    qed
  qed
qed

lemma extractDuckDuckGoResults_external_links:
  "extractDuckDuckGoResults w html num = Inr results \<Longrightarrow>
   \<forall>r \<in> set results. \<not> str_includes (result_link r) ''duckduckgo.com''"
  using extractDuckDuckGoResults_each_external_links [of w _ num "[]" results]
  by (simp add: extractDuckDuckGoResults_def)

lemma extractDuckDuckGoResults_direct_link:
  assumes "0 < num" "truthy (trim (result_a_text el))" "result_a_href el = Some h" "truthy h"
    "\<not> str_includes h ''uddg=''" "\<not> str_includes h ''duckduckgo.com''"
  shows "extractDuckDuckGoResults_each w [el] num [] =
     Inr [\<lparr>result_title = trim (result_a_text el), result_link = h,
            result_snippet = trim (result_snippet_text el)\<rparr>]"
  using assms by (simp add: Let_def)

lemma extractDuckDuckGoResults_wrapped_link:
  assumes "0 < num" "truthy (trim (result_a_text el))" "result_a_href el = Some h"
    "str_includes h ''uddg=''" "match_uddg h = Some captured"
    "decodeURIComponent w captured = Inr destination"
    "truthy destination" "\<not> str_includes destination ''duckduckgo.com''"
  shows "extractDuckDuckGoResults_each w [el] num [] =
     Inr [\<lparr>result_title = trim (result_a_text el), result_link = destination,
            result_snippet = trim (result_snippet_text el)\<rparr>]"
proof -
  from assms(4) have "truthy h" by (cases h) (simp_all add: truthy_def)
  with assms show ?thesis by (simp add: Let_def)
qed

lemma test_listing_results:
  "extractDuckDuckGoResults listing_web ''full'' 5 =
     Inr [\<lparr>result_title = ''Example Title'', result_link = ''https://example.com/page'',
            result_snippet = ''Some snippet text that is long enough.''\<rparr>,
          \<lparr>result_title = ''Encoded Link'', result_link = ''https://example.org/foo'',
            result_snippet = []\<rparr>]"
  by (simp add: extractDuckDuckGoResults_def listing_web_def test_listing_def trim_def isWhiteSpace_def
      truthy_def hex_digit_def string_eval)

text \<open>
  C7 holds of the full-markup path: a wrapped link is decoded from its \<open>uddg\<close> parameter
  (\<open>extractDuckDuckGoResults_wrapped_link\<close>), a direct link is kept
  (\<open>extractDuckDuckGoResults_direct_link\<close>) and no returned link contains the engine's
  domain (\<open>extractDuckDuckGoResults_external_links\<close>). The lightweight-markup path does
  neither: \<open>searchDuckDuckGoLite\<close> pushes the \<open>href\<close> as it is. Where the full markup
  lists nothing and the lightweight markup lists one item whose link is a redirect
  wrapper, the search returns that item with the wrapper as its link, a link on the
  engine's own domain; the same element on the full-markup path is decoded to
  \<open>https://example.org/foo\<close>.
\<close>

theorem searchDuckDuckGoLite_keeps_wrapper:
  "searchDuckDuckGo lite_web ''q'' 5 =
     Inr [\<lparr>result_title = ''Encoded Link'',
            result_link = ''//duckduckgo.com/l/?uddg=https%3A%2F%2Fexample.org%2Ffoo&rut=abc'',
            result_snippet = ''Some snippet''\<rparr>]
   \<and> str_includes ''//duckduckgo.com/l/?uddg=https%3A%2F%2Fexample.org%2Ffoo&rut=abc'' ''duckduckgo.com'' = True
   \<and> extractDuckDuckGoResults_each lite_web
        [\<lparr>result_a_text = link_text wrapped_link, result_a_href = link_href wrapped_link,
          result_snippet_text = link_snippet_text wrapped_link\<rparr>] 5 [] =
     Inr [\<lparr>result_title = ''Encoded Link'', result_link = ''https://example.org/foo'',
            result_snippet = ''Some snippet''\<rparr>]"
  by (simp add: searchDuckDuckGo_def searchDuckDuckGoLite_def checked_response_def lite_web_def
      ok_response_def extractDuckDuckGoResults_def wrapped_link_def trim_def isWhiteSpace_def
      truthy_def or_else_def hex_digit_def string_eval)

section \<open>Results of a fetch\<close>

lemma fetchUrlFromContext_cases:
  "(\<exists>p html parsed. browser url = Inr p \<and> content_result p = Inr html
        \<and> parseHtmlToContent env html url truncate' = Inr parsed
        \<and> fst (fetchUrlFromContext env browser url truncate' opts) =
            Inr \<lparr>fetch_url = url, fetch_title = parsed_title parsed,
                 fetch_content = parsed_content parsed, fetch_error = None\<rparr>)
   \<or> (\<exists>message. fst (fetchUrlFromContext env browser url truncate' opts) =
            Inr \<lparr>fetch_url = url, fetch_title = [], fetch_content = [], fetch_error = Some message\<rparr>)"
proof (cases "browser url")
  case (Inl err)
  then show ?thesis by (simp add: fetchUrlFromContext_def)
next
  case (Inr p)
  obtain outcome s where body: "fetchUrlFromContext_try env p url truncate' fresh_page_state = (outcome, s)"
    by (cases "fetchUrlFromContext_try env p url truncate' fresh_page_state")
  show ?thesis
  proof (cases outcome)
    case (Inl err)
    with Inr body show ?thesis by (simp add: fetchUrlFromContext_def Let_def)
  next
    case fetched: (Inr r)
    with body have "\<exists>html parsed. content_result p = Inr html
        \<and> parseHtmlToContent env html url truncate' = Inr parsed
        \<and> r = \<lparr>fetch_url = url, fetch_title = parsed_title parsed,
                 fetch_content = parsed_content parsed, fetch_error = None\<rparr>"
      by (auto simp: fetchUrlFromContext_try_def split: option.splits sum.splits prod.splits)
    with Inr body fetched show ?thesis by (auto simp: fetchUrlFromContext_def)
  qed
qed

lemma fetchUrlViaHttp_cases:
  "(\<exists>response html parsed. httpFetch w url = Inr response \<and> response_text response = Inr html
        \<and> parseHtmlToContent env html url truncate' = Inr parsed
        \<and> fetchUrlViaHttp env w url truncate' =
            Inr \<lparr>fetch_url = url, fetch_title = parsed_title parsed,
                 fetch_content = parsed_content parsed, fetch_error = None\<rparr>)
   \<or> (\<exists>message. fetchUrlViaHttp env w url truncate' =
            Inr \<lparr>fetch_url = url, fetch_title = [], fetch_content = [], fetch_error = Some message\<rparr>)"
proof (cases "fetchUrlViaHttp_try env w url truncate'")
  case (Inl err)
  then show ?thesis by (simp add: fetchUrlViaHttp_def)
next
  case (Inr r)
  then have "\<exists>response html parsed. httpFetch w url = Inr response \<and> response_text response = Inr html
        \<and> parseHtmlToContent env html url truncate' = Inr parsed
        \<and> r = \<lparr>fetch_url = url, fetch_title = parsed_title parsed,
                 fetch_content = parsed_content parsed, fetch_error = None\<rparr>"
    by (auto simp: fetchUrlViaHttp_try_def Let_def split: sum.splits if_splits)
  with Inr show ?thesis by (auto simp: fetchUrlViaHttp_def)
qed

lemma fetchUrlFromContext_navigation_failure:
  "browser url = Inr p \<Longrightarrow> goto_error p = Some err \<Longrightarrow>
   fst (fetchUrlFromContext env browser url truncate' opts) =
     Inr \<lparr>fetch_url = url, fetch_title = [], fetch_content = [],
          fetch_error = Some (failure_message ''Timeout after 45s'' err)\<rparr>"
  by (simp add: fetchUrlFromContext_def fetchUrlFromContext_try_def Let_def)

lemma fetchUrlFromContext_bot_protection_failure:
  "browser url = Inr p \<Longrightarrow> goto_error p = None \<Longrightarrow>
   fst (waitForBotProtectionToClear p DEFAULT_MARKERS fresh_page_state) = Inl err \<Longrightarrow>
   fst (fetchUrlFromContext env browser url truncate' opts) =
     Inr \<lparr>fetch_url = url, fetch_title = [], fetch_content = [],
          fetch_error = Some (failure_message ''Timeout after 45s'' err)\<rparr>"
  by (cases "waitForBotProtectionToClear p DEFAULT_MARKERS fresh_page_state")
    (simp add: fetchUrlFromContext_def fetchUrlFromContext_try_def Let_def)

lemma fetchUrlViaHttp_network_failure:
  "httpFetch w url = Inl err \<Longrightarrow>
   fetchUrlViaHttp env w url truncate' =
     Inr \<lparr>fetch_url = url, fetch_title = [], fetch_content = [],
          fetch_error = Some (failure_message ''Timeout after 15s'' err)\<rparr>"
  by (simp add: fetchUrlViaHttp_def fetchUrlViaHttp_try_def)


text \<open>
  C8: every result of a fetch, through the browser or over plain HTTP, either has error
  \<open>null\<close> and carries the title and the content \<open>parseHtmlToContent\<close> extracted from the
  page, or has an error message and the empty string as title and as content. The
  content is always a string, and a failure (of opening the page, of the navigation, of
  the bot-protection wait, of reading or parsing the page, of the network) is turned into
  such a result, never thrown.
\<close>

theorem fetch_result_contract:
  "((\<exists>p html parsed. browser url = Inr p \<and> content_result p = Inr html
         \<and> parseHtmlToContent env html url truncate' = Inr parsed
         \<and> fst (fetchUrlFromContext env browser url truncate' opts) =
             Inr \<lparr>fetch_url = url, fetch_title = parsed_title parsed,
                  fetch_content = parsed_content parsed, fetch_error = None\<rparr>)
     \<or> (\<exists>message. fst (fetchUrlFromContext env browser url truncate' opts) =
             Inr \<lparr>fetch_url = url, fetch_title = [], fetch_content = [], fetch_error = Some message\<rparr>))
   \<and> ((\<exists>response html parsed. httpFetch w url = Inr response \<and> response_text response = Inr html
         \<and> parseHtmlToContent env html url truncate' = Inr parsed
         \<and> fetchUrlViaHttp env w url truncate' =
             Inr \<lparr>fetch_url = url, fetch_title = parsed_title parsed,
                  fetch_content = parsed_content parsed, fetch_error = None\<rparr>)
     \<or> (\<exists>message. fetchUrlViaHttp env w url truncate' =
             Inr \<lparr>fetch_url = url, fetch_title = [], fetch_content = [], fetch_error = Some message\<rparr>))
   \<and> (browser url = Inr p \<and> goto_error p = Some err \<longrightarrow>
        fst (fetchUrlFromContext env browser url truncate' opts) =
          Inr \<lparr>fetch_url = url, fetch_title = [], fetch_content = [],
               fetch_error = Some (failure_message ''Timeout after 45s'' err)\<rparr>)
   \<and> (browser url = Inr p \<and> goto_error p = None
        \<and> fst (waitForBotProtectionToClear p DEFAULT_MARKERS fresh_page_state) = Inl err \<longrightarrow>
        fst (fetchUrlFromContext env browser url truncate' opts) =
          Inr \<lparr>fetch_url = url, fetch_title = [], fetch_content = [],
               fetch_error = Some (failure_message ''Timeout after 45s'' err)\<rparr>)
   \<and> (httpFetch w url = Inl err \<longrightarrow>
        fetchUrlViaHttp env w url truncate' =
          Inr \<lparr>fetch_url = url, fetch_title = [], fetch_content = [],
               fetch_error = Some (failure_message ''Timeout after 15s'' err)\<rparr>)"
proof -
  note browser_cases = fetchUrlFromContext_cases [of browser url env truncate' opts]
  note http_cases = fetchUrlViaHttp_cases [of w url env truncate']
  have navigation: "browser url = Inr p \<and> goto_error p = Some err \<longrightarrow>
        fst (fetchUrlFromContext env browser url truncate' opts) =
          Inr \<lparr>fetch_url = url, fetch_title = [], fetch_content = [],
               fetch_error = Some (failure_message ''Timeout after 45s'' err)\<rparr>"
    using fetchUrlFromContext_navigation_failure [of browser url p err env truncate' opts] by blast
  have challenge: "browser url = Inr p \<and> goto_error p = None
        \<and> fst (waitForBotProtectionToClear p DEFAULT_MARKERS fresh_page_state) = Inl err \<longrightarrow>
        fst (fetchUrlFromContext env browser url truncate' opts) =
          Inr \<lparr>fetch_url = url, fetch_title = [], fetch_content = [],
               fetch_error = Some (failure_message ''Timeout after 45s'' err)\<rparr>"
    using fetchUrlFromContext_bot_protection_failure [of browser url p err env truncate' opts] by blast
  have network: "httpFetch w url = Inl err \<longrightarrow>
        fetchUrlViaHttp env w url truncate' =
          Inr \<lparr>fetch_url = url, fetch_title = [], fetch_content = [],
               fetch_error = Some (failure_message ''Timeout after 15s'' err)\<rparr>"
    using fetchUrlViaHttp_network_failure [of w url err env truncate'] by blast
  show ?thesis
    by (intro conjI browser_cases http_cases navigation challenge network)
qed

lemma challenge_detected: "detect_in_page challenge_document DEFAULT_MARKERS = True"
  by (simp add: challenge_document_def detect_in_page_def DEFAULT_MARKERS_def string_eval)

lemma hello_not_detected: "detect_in_page hello_document DEFAULT_MARKERS = False"
  by (simp add: hello_document_def detect_in_page_def DEFAULT_MARKERS_def string_eval)

lemma challenge_never_clears:
  "fst (waitForBotProtectionToClear (page_showing challenge_document []) DEFAULT_MARKERS fresh_page_state) =
     Inl (Error (''Bot protection challenge did not clear (title=\"Just a moment...\")''))"
  by (simp add: waitForBotProtectionToClear_def page_waitForTimeout_def page_showing_def
      fresh_page_state_def numeral_3_eq_3 isLikelyBotProtectionPage_three page_evaluate_def
      challenge_detected) (simp add: challenge_document_def)

lemma hello_page_fetched:
  "fst (fetchUrlFromContext hello_page_env (\<lambda>url. Inr (page_showing hello_document hello_page))
          ''https://example.com'' True no_dump) =
     Inr \<lparr>fetch_url = ''https://example.com'', fetch_title = ''Hello'',
          fetch_content = ''Hello World'', fetch_error = None\<rparr>"
  by (simp add: fetchUrlFromContext_def fetchUrlFromContext_try_def waitForBotProtectionToClear_def
      page_waitForTimeout_def page_showing_def fresh_page_state_def numeral_3_eq_3
      isLikelyBotProtectionPage_three page_evaluate_def hello_not_detected
      hello_page_env_def readable_page_env_parsed cut_content_def trim_def isWhiteSpace_def)

theorem fetch_result_contract_witness:
  "fst (fetchUrlFromContext hello_page_env (\<lambda>url. Inr unreachable_page) ''https://example.com'' True no_dump) =
     Inr \<lparr>fetch_url = ''https://example.com'', fetch_title = [], fetch_content = [],
          fetch_error = Some ''page.goto: Timeout 45000ms exceeded.''\<rparr>
   \<and> fst (fetchUrlFromContext hello_page_env (\<lambda>url. Inr (page_showing challenge_document []))
          ''https://example.com'' True no_dump) =
     Inr \<lparr>fetch_url = ''https://example.com'', fetch_title = [], fetch_content = [],
          fetch_error = Some ''Bot protection challenge did not clear (title=\"Just a moment...\")''\<rparr>
   \<and> fetchUrlViaHttp hello_page_env offline_web ''https://example.invalid'' True =
     Inr \<lparr>fetch_url = ''https://example.invalid'', fetch_title = [], fetch_content = [],
          fetch_error = Some ''getaddrinfo ENOTFOUND example.invalid''\<rparr>
   \<and> fst (fetchUrlFromContext hello_page_env (\<lambda>url. Inr (page_showing hello_document hello_page))
          ''https://example.com'' True no_dump) =
     Inr \<lparr>fetch_url = ''https://example.com'', fetch_title = ''Hello'',
          fetch_content = ''Hello World'', fetch_error = None\<rparr>"
proof -
  let ?timeout = "JsError ''TimeoutError'' ''page.goto: Timeout 45000ms exceeded.'' None"
  let ?stuck = "Error (''Bot protection challenge did not clear (title=\"Just a moment...\")'')"
  let ?offline = "JsError ''TypeError'' ''fetch failed'' (Some ''getaddrinfo ENOTFOUND example.invalid'')"
  note navigation = fetch_result_contract [of "\<lambda>url. Inr unreachable_page" "''https://example.com''"
      hello_page_env True no_dump _ unreachable_page ?timeout,
      THEN conjunct2, THEN conjunct2, THEN conjunct1]
  note challenge = fetch_result_contract [of "\<lambda>url. Inr (page_showing challenge_document [])"
      "''https://example.com''" hello_page_env True no_dump _ "page_showing challenge_document []" ?stuck,
      THEN conjunct2, THEN conjunct2, THEN conjunct2, THEN conjunct1]
  note network = fetch_result_contract [of _ "''https://example.invalid''" hello_page_env True _ offline_web _ ?offline,
      THEN conjunct2, THEN conjunct2, THEN conjunct2, THEN conjunct2]
  have "goto_error unreachable_page = Some ?timeout"
    by (simp add: unreachable_page_def)
  with navigation
  have "fst (fetchUrlFromContext hello_page_env (\<lambda>url. Inr unreachable_page) ''https://example.com'' True no_dump) =
     Inr \<lparr>fetch_url = ''https://example.com'', fetch_title = [], fetch_content = [],
          fetch_error = Some (failure_message ''Timeout after 45s'' ?timeout)\<rparr>"
    by simp
  then have a: "fst (fetchUrlFromContext hello_page_env (\<lambda>url. Inr unreachable_page) ''https://example.com'' True no_dump) =
     Inr \<lparr>fetch_url = ''https://example.com'', fetch_title = [], fetch_content = [],
          fetch_error = Some ''page.goto: Timeout 45000ms exceeded.''\<rparr>"
    by (simp add: failure_message_def or_else_def truthy_def)
  have "goto_error (page_showing challenge_document []) = None"
    by (simp add: page_showing_def)
  with challenge challenge_never_clears
  have "fst (fetchUrlFromContext hello_page_env (\<lambda>url. Inr (page_showing challenge_document []))
          ''https://example.com'' True no_dump) =
     Inr \<lparr>fetch_url = ''https://example.com'', fetch_title = [], fetch_content = [],
          fetch_error = Some (failure_message ''Timeout after 45s'' ?stuck)\<rparr>"
    by simp
  then have b: "fst (fetchUrlFromContext hello_page_env (\<lambda>url. Inr (page_showing challenge_document []))
          ''https://example.com'' True no_dump) =
     Inr \<lparr>fetch_url = ''https://example.com'', fetch_title = [], fetch_content = [],
          fetch_error = Some ''Bot protection challenge did not clear (title=\"Just a moment...\")''\<rparr>"
    by (simp add: failure_message_def or_else_def truthy_def Error_def)
  have "httpFetch offline_web ''https://example.invalid'' = Inl ?offline"
    by (simp add: offline_web_def)
  with network
  have "fetchUrlViaHttp hello_page_env offline_web ''https://example.invalid'' True =
     Inr \<lparr>fetch_url = ''https://example.invalid'', fetch_title = [], fetch_content = [],
          fetch_error = Some (failure_message ''Timeout after 15s'' ?offline)\<rparr>"
    by simp
  then have c: "fetchUrlViaHttp hello_page_env offline_web ''https://example.invalid'' True =
     Inr \<lparr>fetch_url = ''https://example.invalid'', fetch_title = [], fetch_content = [],
          fetch_error = Some ''getaddrinfo ENOTFOUND example.invalid''\<rparr>"
    by (simp add: failure_message_def or_else_def truthy_def)
  show ?thesis
    by (intro conjI a b c hello_page_fetched)
qed

section \<open>The default result count\<close>

lemma run_command_search:
  assumes "get_property parsed ''command'' = Inr (Some (JString ''search''))"
    "get_property parsed ''payload'' = Inr (Some payload)" "js_truthy (Some payload)"
    "get_property payload ''query'' = Inr (Some query)" "js_truthy (Some query)"
    "get_property payload ''numResults'' = Inr v"
  shows "run_command deps (Inr parsed) =
     map_sum id SearchData
       (dep_searchWebFromContext deps query
          (case v of Some (JNumber (Finite k)) \<Rightarrow> k | _ \<Rightarrow> 5))"
  using assms by (simp add: run_command_def Let_def)

lemma not_finite_default:
  "\<not> Number_isFinite v \<Longrightarrow> (case v of Some (JNumber (Finite k)) \<Rightarrow> k | _ \<Rightarrow> 5) = 5"
  by (cases v rule: Number_isFinite.cases) simp_all

text \<open>
  C10: for every search command the daemon accepts (the body's command is \<open>search\<close> and
  its payload has a truthy query) whose \<open>payload.numResults\<close> is absent or is not a finite
  number, the handler calls the search orchestrator with the count 5: the command is
  answered with what the orchestrator returns for 5 (status 200), it is not rejected and
  the missing value is not passed through. A finite number is passed as it is.
\<close>

theorem daemon_search_default_count:
  "get_property parsed ''command'' = Inr (Some (JString ''search''))
   \<and> get_property parsed ''payload'' = Inr (Some payload) \<and> js_truthy (Some payload)
   \<and> get_property payload ''query'' = Inr (Some query) \<and> js_truthy (Some query)
   \<and> get_property payload ''numResults'' = Inr v \<longrightarrow>
   (\<not> Number_isFinite v \<longrightarrow>
      run_command deps (Inr parsed) = map_sum id SearchData (dep_searchWebFromContext deps query 5)
      \<and> (dep_searchWebFromContext deps query 5 = Inr results \<longrightarrow>
           handle_command deps (Inr parsed) =
             \<lparr>reply_status = 200, reply_success = True, reply_data = Some (SearchData results),
              reply_error = None\<rparr>))
   \<and> (v = Some (JNumber (Finite k)) \<longrightarrow>
      run_command deps (Inr parsed) = map_sum id SearchData (dep_searchWebFromContext deps query k))"
proof
  assume a: "get_property parsed ''command'' = Inr (Some (JString ''search''))
   \<and> get_property parsed ''payload'' = Inr (Some payload) \<and> js_truthy (Some payload)
   \<and> get_property payload ''query'' = Inr (Some query) \<and> js_truthy (Some query)
   \<and> get_property payload ''numResults'' = Inr v"
  have run: "run_command deps (Inr parsed) =
     map_sum id SearchData
       (dep_searchWebFromContext deps query
          (case v of Some (JNumber (Finite k)) \<Rightarrow> k | _ \<Rightarrow> 5))"
    using a run_command_search [of parsed payload query v deps] by blast
  have absent: "\<not> Number_isFinite v \<longrightarrow>
      run_command deps (Inr parsed) = map_sum id SearchData (dep_searchWebFromContext deps query 5)
      \<and> (dep_searchWebFromContext deps query 5 = Inr results \<longrightarrow>
           handle_command deps (Inr parsed) =
             \<lparr>reply_status = 200, reply_success = True, reply_data = Some (SearchData results),
              reply_error = None\<rparr>)"
    using run not_finite_default [of v] by (simp add: handle_command_def)
  have given: "v = Some (JNumber (Finite k)) \<longrightarrow>
      run_command deps (Inr parsed) = map_sum id SearchData (dep_searchWebFromContext deps query k)"
    using run by simp
  from absent given show "(\<not> Number_isFinite v \<longrightarrow>
      run_command deps (Inr parsed) = map_sum id SearchData (dep_searchWebFromContext deps query 5)
      \<and> (dep_searchWebFromContext deps query 5 = Inr results \<longrightarrow>
           handle_command deps (Inr parsed) =
             \<lparr>reply_status = 200, reply_success = True, reply_data = Some (SearchData results),
              reply_error = None\<rparr>))
   \<and> (v = Some (JNumber (Finite k)) \<longrightarrow>
      run_command deps (Inr parsed) = map_sum id SearchData (dep_searchWebFromContext deps query k))"
    by (rule conjI)
qed

lemma five: "number_to_string 5 = ''5''"
  by (simp add: number_to_string_def nat_to_string.simps digit_unit_def char_of_def bit_0)

lemma ten: "number_to_string 10 = ''10''"
  by (simp add: number_to_string_def nat_to_string.simps [of 10] nat_to_string.simps [of "Suc 0"]
      nat_to_string.simps [of 0] digit_unit_def char_of_def bit_0)

theorem daemon_search_default_count_witness:
  "handle_command recording_deps (Inr (search_command [(''query'', JString ''isabelle'')])) =
     \<lparr>reply_status = 200, reply_success = True,
      reply_data = Some (SearchData [\<lparr>result_title = ''isabelle'', result_link = [], result_snippet = ''5''\<rparr>]),
      reply_error = None\<rparr>
   \<and> handle_command recording_deps
       (Inr (search_command [(''query'', JString ''isabelle''), (''numResults'', JString ''10'')])) =
     \<lparr>reply_status = 200, reply_success = True,
      reply_data = Some (SearchData [\<lparr>result_title = ''isabelle'', result_link = [], result_snippet = ''5''\<rparr>]),
      reply_error = None\<rparr>
   \<and> handle_command recording_deps
       (Inr (search_command [(''query'', JString ''isabelle''), (''numResults'', JNumber PosInfinity)])) =
     \<lparr>reply_status = 200, reply_success = True,
      reply_data = Some (SearchData [\<lparr>result_title = ''isabelle'', result_link = [], result_snippet = ''5''\<rparr>]),
      reply_error = None\<rparr>
   \<and> run_command recording_deps
       (Inr (search_command [(''query'', JString ''isabelle''), (''numResults'', JNumber (Finite 10))])) =
     Inr (SearchData [\<lparr>result_title = ''isabelle'', result_link = [], result_snippet = ''10''\<rparr>])"
proof -
  let ?q = "JString ''isabelle''"
  let ?found = "[\<lparr>result_title = ''isabelle'', result_link = [], result_snippet = ''5''\<rparr>]"
  have search5: "dep_searchWebFromContext recording_deps ?q 5 = Inr ?found"
    by (simp add: recording_deps_def js_to_string_def five)
  have search10: "dep_searchWebFromContext recording_deps ?q 10 =
      Inr [\<lparr>result_title = ''isabelle'', result_link = [], result_snippet = ''10''\<rparr>]"
    by (simp add: recording_deps_def js_to_string_def ten)
  have no_count: "handle_command recording_deps (Inr (search_command [(''query'', ?q)])) =
     \<lparr>reply_status = 200, reply_success = True, reply_data = Some (SearchData ?found), reply_error = None\<rparr>"
    using daemon_search_default_count [of "search_command [(''query'', ?q)]"
        "JObject [(''query'', ?q)]" ?q None recording_deps ?found] search5
    by (simp add: search_command_def)
  have as_text: "handle_command recording_deps
       (Inr (search_command [(''query'', ?q), (''numResults'', JString ''10'')])) =
     \<lparr>reply_status = 200, reply_success = True, reply_data = Some (SearchData ?found), reply_error = None\<rparr>"
    using daemon_search_default_count [of "search_command [(''query'', ?q), (''numResults'', JString ''10'')]"
        "JObject [(''query'', ?q), (''numResults'', JString ''10'')]" ?q "Some (JString ''10'')"
        recording_deps ?found] search5
    by (simp add: search_command_def)
  have infinite_count: "handle_command recording_deps
       (Inr (search_command [(''query'', ?q), (''numResults'', JNumber PosInfinity)])) =
     \<lparr>reply_status = 200, reply_success = True, reply_data = Some (SearchData ?found), reply_error = None\<rparr>"
    using daemon_search_default_count [of "search_command [(''query'', ?q), (''numResults'', JNumber PosInfinity)]"
        "JObject [(''query'', ?q), (''numResults'', JNumber PosInfinity)]" ?q "Some (JNumber PosInfinity)"
        recording_deps ?found] search5
    by (simp add: search_command_def)
  have finite_count: "run_command recording_deps
       (Inr (search_command [(''query'', ?q), (''numResults'', JNumber (Finite 10))])) =
     Inr (SearchData [\<lparr>result_title = ''isabelle'', result_link = [], result_snippet = ''10''\<rparr>])"
    using daemon_search_default_count [of "search_command [(''query'', ?q), (''numResults'', JNumber (Finite 10))]"
        "JObject [(''query'', ?q), (''numResults'', JNumber (Finite 10))]" ?q "Some (JNumber (Finite 10))"
        recording_deps _ 10] search10
    by (simp add: search_command_def)
  show ?thesis
    by (intro conjI no_count as_text infinite_count finite_count)
qed

section \<open>The daemon queue\<close>

lemma serialised_empty: "serialised deps empty_queue 0"
  by (simp add: serialised_def empty_queue_def)

lemma serialised_last:
  assumes "serialised deps s k" "chain s \<noteq> []"
  shows "is_settled (snd (last (chain s))) \<longleftrightarrow> k = length (chain s)"
proof -
  let ?n = "length (chain s)"
  from assms(2) have last: "last (chain s) = chain s ! (?n - 1)" and pos: "0 < ?n"
    by (simp_all add: last_conv_nth)
  show ?thesis
  proof
    assume settled: "is_settled (snd (last (chain s)))"
    show "k = ?n"
    proof (rule ccontr)
      assume "k \<noteq> ?n"
      with assms(1) have lt: "k < ?n" by (simp add: serialised_def)
      show False
      proof (cases "k = ?n - 1")
        case True
        with assms(1) lt have "snd (chain s ! (?n - 1)) = Scheduled \<or> is_running (snd (chain s ! (?n - 1)))"
          by (simp add: serialised_def)
        with settled last show False by (cases "snd (chain s ! (?n - 1))") auto
      next
        case False
        with lt have "k < ?n - 1" "?n - 1 < ?n" by simp_all
        with assms(1) have "snd (chain s ! (?n - 1)) = Waiting" by (simp add: serialised_def)
        with settled last show False by simp
      qed
    qed
  next
    assume "k = ?n"
    with assms(1) pos have "is_settled (snd (chain s ! (?n - 1)))" by (simp add: serialised_def)
    with last show "is_settled (snd (last (chain s)))" by simp
  qed
qed

lemma serialised_enqueue:
  assumes "serialised deps s k"
  shows "serialised deps (enqueue t s) k"
proof (cases "chain s = []")
  case True
  with assms show ?thesis
    by (auto simp: serialised_def enqueue_def)
next
  case False
  note last = serialised_last [OF assms False]
  show ?thesis
  proof (cases "k = length (chain s)")
    case True
    with assms last show ?thesis
      by (auto simp: serialised_def enqueue_def nth_append)
  next
    case False
    with assms have "k < length (chain s)" by (simp add: serialised_def)
    with assms last False show ?thesis
      by (auto simp: serialised_def enqueue_def nth_append less_Suc_eq)
  qed
qed


lemma serialised_active:
  assumes "serialised deps s k" "i < length (chain s)"
    "snd (chain s ! i) = Scheduled \<or> is_running (snd (chain s ! i))"
  shows "i = k"
proof (rule ccontr)
  assume "i \<noteq> k"
  then consider "i < k" | "k < i" by linarith
  then show False
  proof cases
    case 1
    with assms(1) have "is_settled (snd (chain s ! i))" by (simp add: serialised_def)
    with assms(3) show False by (cases "snd (chain s ! i)") auto
  next
    case 2
    with assms(1,2) have "snd (chain s ! i) = Waiting" by (simp add: serialised_def)
    with assms(3) show False by simp
  qed
qed

lemma fst_nth_update:
  "fst ((xs[j := (fst (xs ! j), p)]) ! i) = fst (xs ! i)"
  by (cases "j < length xs") (simp_all add: nth_list_update list_update_beyond)

lemma map_fst_update:
  "map fst (xs[j := (fst (xs ! j), p)]) = map fst xs"
  by (rule nth_equalityI) (simp_all add: fst_nth_update)

lemma map_fst_update_same:
  assumes "fst v = fst (xs ! j)"
  shows "map fst (xs[j := v]) = map fst xs"
proof (cases "j < length xs")
  case True
  with assms have "(map fst xs)[j := fst v] = map fst xs"
    by (simp add: list_update_same_conv)
  then show ?thesis by (simp add: map_update)
next
  case False
  then show ?thesis by (simp add: list_update_beyond)
qed

lemma map_fst_settle: "map fst (chain (settle deps i s)) = map fst (chain s)"
  by (simp add: settle_def Let_def map_fst_update_same fst_nth_update)

lemma written_reply_update:
  "map (\<lambda>i. (i, written_reply deps (fst ((xs[j := (fst (xs ! j), p)]) ! i)))) [0..<k] =
   map (\<lambda>i. (i, written_reply deps (fst (xs ! i)))) [0..<k]"
  by (simp add: fst_nth_update)

lemma serialisedI:
  assumes "k \<le> length (chain s)"
    and "\<And>i. i < k \<Longrightarrow> is_settled (snd (chain s ! i))"
    and "k < length (chain s) \<Longrightarrow> snd (chain s ! k) = Scheduled \<or> is_running (snd (chain s ! k))"
    and "\<And>i. k < i \<Longrightarrow> i < length (chain s) \<Longrightarrow> snd (chain s ! i) = Waiting"
    and "started s = [0..<(if k < length (chain s) \<and> is_running (snd (chain s ! k)) then Suc k else k)]"
    and "finished s = map (\<lambda>i. (i, written_reply deps (fst (chain s ! i)))) [0..<k]"
  shows "serialised deps s k"
  unfolding serialised_def using assms by blast

lemma serialised_length: "serialised deps s k \<Longrightarrow> k \<le> length (chain s)"
  and serialised_settled: "serialised deps s k \<Longrightarrow> i < k \<Longrightarrow> is_settled (snd (chain s ! i))"
  and serialised_frontier: "serialised deps s k \<Longrightarrow> k < length (chain s) \<Longrightarrow>
      snd (chain s ! k) = Scheduled \<or> is_running (snd (chain s ! k))"
  and serialised_waiting: "serialised deps s k \<Longrightarrow> k < i \<Longrightarrow> i < length (chain s) \<Longrightarrow>
      snd (chain s ! i) = Waiting"
  and serialised_started: "serialised deps s k \<Longrightarrow>
      started s = [0..<(if k < length (chain s) \<and> is_running (snd (chain s ! k)) then Suc k else k)]"
  and serialised_finished: "serialised deps s k \<Longrightarrow>
      finished s = map (\<lambda>i. (i, written_reply deps (fst (chain s ! i)))) [0..<k]"
  unfolding serialised_def by blast+

lemma serialised_start:
  assumes inv: "serialised deps s k" and "step deps (Start i) s = Some s'"
  shows "serialised deps s' k"
proof -
  from assms(2) have i: "i < length (chain s)" and ph: "snd (chain s ! i) = Scheduled"
    and s': "s' = s\<lparr>chain := (chain s)[i := (fst (chain s ! i), Running (task_awaits (fst (chain s ! i))))],
                  started := started s @ [i]\<rparr>"
    by (auto split: if_splits)
  from serialised_active [OF inv i] ph have ik: "i = k" by simp
  from serialised_started [OF inv] i ph ik have st: "started s = [0..<k]" by simp
  let ?chain = "(chain s)[k := (fst (chain s ! k), Running (task_awaits (fst (chain s ! k))))]"
  have c: "chain s' = ?chain" and st': "started s' = [0..<k] @ [k]" and f: "finished s' = finished s"
    unfolding s' ik st by simp_all
  show ?thesis
  proof (rule serialisedI)
    show "k \<le> length (chain s')" using i ik c by simp
    show "is_settled (snd (chain s' ! j))" if "j < k" for j
      using that serialised_settled [OF inv that] i ik c by simp
    show "snd (chain s' ! k) = Scheduled \<or> is_running (snd (chain s' ! k))"
      using i ik c by simp
    show "snd (chain s' ! j) = Waiting" if "k < j" "j < length (chain s')" for j
      using that serialised_waiting [OF inv, of j] c by simp
    show "started s' = [0..<(if k < length (chain s') \<and> is_running (snd (chain s' ! k)) then Suc k else k)]"
      using i ik c st' by simp
    show "finished s' = map (\<lambda>j. (j, written_reply deps (fst (chain s' ! j)))) [0..<k]"
      unfolding f c written_reply_update by (rule serialised_finished [OF inv])
  qed
qed

lemma serialised_resume:
  assumes inv: "serialised deps s k" and "step deps (Resume i) s = Some s'"
  shows "serialised deps s' k"
proof -
  from assms(2) obtain n where i: "i < length (chain s)" and ph: "snd (chain s ! i) = Running (Suc n)"
    and s': "s' = s\<lparr>chain := (chain s)[i := (fst (chain s ! i), Running n)]\<rparr>"
    by (auto split: if_splits phase.splits nat.splits)
  from serialised_active [OF inv i] ph have ik: "i = k" by simp
  from serialised_started [OF inv] i ph ik have st: "started s = [0..<Suc k]" by simp
  let ?chain = "(chain s)[k := (fst (chain s ! k), Running n)]"
  have c: "chain s' = ?chain" and st': "started s' = started s" and f: "finished s' = finished s"
    unfolding s' ik by simp_all
  show ?thesis
  proof (rule serialisedI)
    show "k \<le> length (chain s')" using i ik c by simp
    show "is_settled (snd (chain s' ! j))" if "j < k" for j
      using that serialised_settled [OF inv that] i ik c by simp
    show "snd (chain s' ! k) = Scheduled \<or> is_running (snd (chain s' ! k))"
      using i ik c by simp
    show "snd (chain s' ! j) = Waiting" if "k < j" "j < length (chain s')" for j
      using that serialised_waiting [OF inv, of j] c by simp
    show "started s' = [0..<(if k < length (chain s') \<and> is_running (snd (chain s' ! k)) then Suc k else k)]"
      using i ik c st st' by simp
    show "finished s' = map (\<lambda>j. (j, written_reply deps (fst (chain s' ! j)))) [0..<k]"
      unfolding f c written_reply_update by (rule serialised_finished [OF inv])
  qed
qed

lemma serialised_finish:
  assumes inv: "serialised deps s k" and "step deps (Finish i) s = Some s'"
  shows "serialised deps s' (Suc k)"
proof -
  from assms(2) have i: "i < length (chain s)" and ph: "snd (chain s ! i) = Running 0"
    and s': "s' = settle deps i s"
    by (auto split: if_splits)
  from serialised_active [OF inv i] ph have ik: "i = k" by simp
  from i ik have k: "k < length (chain s)" by simp
  from serialised_started [OF inv] k ph ik have st: "started s = [0..<Suc k]" by simp
  let ?t = "fst (chain s ! k)"
  let ?settled = "(chain s)[k := (?t, Settled (if task_write_fails ?t then Rejected else Fulfilled))]"
  have fin': "finished s' = finished s @ [(k, written_reply deps ?t)]"
    and st': "started s' = started s"
    unfolding s' ik by (simp_all add: settle_def Let_def)
  have len: "length (chain s') = length (chain s)"
    unfolding s' ik by (simp add: settle_def Let_def)
  have fst_same: "fst (chain s' ! j) = fst (chain s ! j)" if "j < length (chain s)" for j
  proof -
    have "map fst (chain s') ! j = map fst (chain s) ! j"
      unfolding s' by (simp only: map_fst_settle)
    with that len show ?thesis by simp
  qed
  have at_k: "snd (chain s' ! k) = Settled (if task_write_fails ?t then Rejected else Fulfilled)"
    unfolding s' ik using k by (simp add: settle_def Let_def)
  have below: "snd (chain s' ! j) = snd (chain s ! j)" if "j < k" for j
    unfolding s' ik using that k by (simp add: settle_def Let_def)
  have above: "snd (chain s' ! j) = snd (chain s ! j)" if "Suc k < j" for j
    unfolding s' ik using that by (simp add: settle_def Let_def)
  have next_one: "snd (chain s' ! Suc k) = Scheduled" if "Suc k < length (chain s)"
  proof -
    from serialised_waiting [OF inv _ that] have "snd (chain s ! Suc k) = Waiting" by simp
    with that show ?thesis unfolding s' ik by (simp add: settle_def Let_def)
  qed
  show ?thesis
  proof (rule serialisedI)
    show "Suc k \<le> length (chain s')" using k len by simp
    show "is_settled (snd (chain s' ! j))" if "j < Suc k" for j
    proof (cases "j = k")
      case True
      with at_k show ?thesis by simp
    next
      case False
      with that have "j < k" by simp
      with below [OF this] serialised_settled [OF inv this] show ?thesis by simp
    qed
    show "snd (chain s' ! Suc k) = Scheduled \<or> is_running (snd (chain s' ! Suc k))"
      if "Suc k < length (chain s')"
      using that next_one len by simp
    show "snd (chain s' ! j) = Waiting" if "Suc k < j" "j < length (chain s')" for j
      using that above [OF that(1)] serialised_waiting [OF inv, of j] len by simp
    show "started s' = [0..<(if Suc k < length (chain s') \<and> is_running (snd (chain s' ! Suc k))
                             then Suc (Suc k) else Suc k)]"
      using st st' next_one len by auto
    show "finished s' = map (\<lambda>j. (j, written_reply deps (fst (chain s' ! j)))) [0..<Suc k]"
      unfolding fin' using serialised_finished [OF inv] k by (simp add: fst_same)
  qed
qed

lemma serialised_step:
  assumes "serialised deps s k" "step deps e s = Some s'"
  shows "\<exists>k'. serialised deps s' k'"
proof (cases e)
  case (Post t)
  with assms serialised_enqueue [of deps s k t] show ?thesis by auto
next
  case (Start i)
  with assms serialised_start [of deps s k i s'] show ?thesis by blast
next
  case (Resume i)
  with assms serialised_resume [of deps s k i s'] show ?thesis by blast
next
  case (Finish i)
  with assms serialised_finish [of deps s k i s'] show ?thesis by blast
qed

lemma serialised_run:
  "serialised deps s k \<Longrightarrow> run deps events s = Some s' \<Longrightarrow> \<exists>k'. serialised deps s' k'"
proof (induction events arbitrary: s k)
  case Nil
  then show ?case by auto
next
  case (Cons e es)
  from Cons.prems(2) obtain s1 where e: "step deps e s = Some s1" and es: "run deps es s1 = Some s'"
    by (auto split: option.splits)
  from serialised_step [OF Cons.prems(1) e] obtain k1 where "serialised deps s1 k1" by blast
  from Cons.IH [OF this es] show ?case .
qed


lemma map_fst_step:
  "step deps e s = Some s' \<Longrightarrow> map fst (chain s') = map fst (chain s) @ posted [e]"
proof (cases e)
  case (Post t)
  then show "step deps e s = Some s' \<Longrightarrow> ?thesis" by (auto simp: enqueue_def)
next
  case (Start i)
  then show "step deps e s = Some s' \<Longrightarrow> ?thesis" by (auto simp: map_fst_update split: if_splits)
next
  case (Resume i)
  then show "step deps e s = Some s' \<Longrightarrow> ?thesis"
    by (auto simp: map_fst_update split: if_splits phase.splits nat.splits)
next
  case (Finish i)
  then show "step deps e s = Some s' \<Longrightarrow> ?thesis" by (auto simp: map_fst_settle split: if_splits)
qed

lemma posted_append: "posted (xs @ ys) = posted xs @ posted ys"
  by (induction xs rule: posted.induct) simp_all

lemma map_fst_run:
  "run deps events s = Some s' \<Longrightarrow> map fst (chain s') = map fst (chain s) @ posted events"
proof (induction events arbitrary: s)
  case Nil
  then show ?case by simp
next
  case (Cons e es)
  from Cons.prems obtain s1 where e: "step deps e s = Some s1" and es: "run deps es s1 = Some s'"
    by (auto split: option.splits)
  from Cons.IH [OF es] map_fst_step [OF e] have
    "map fst (chain s') = (map fst (chain s) @ posted [e]) @ posted es" by simp
  also have "\<dots> = map fst (chain s) @ posted ([e] @ es)"
    by (simp only: posted_append append_assoc)
  finally show ?case by simp
qed

lemma serialised_one_running:
  assumes "serialised deps s k"
  shows "running_operations s \<le> 1"
proof -
  have "{i. i < length (chain s) \<and> (case chain s ! i of (t, p) \<Rightarrow> is_running p)} \<subseteq> {k}"
  proof
    fix i assume "i \<in> {i. i < length (chain s) \<and> (case chain s ! i of (t, p) \<Rightarrow> is_running p)}"
    then have "i < length (chain s)" and "is_running (snd (chain s ! i))"
      by (auto simp: case_prod_unfold)
    with serialised_active [OF assms] show "i \<in> {k}" by simp
  qed
  then have "card {i. i < length (chain s) \<and> (case chain s ! i of (t, p) \<Rightarrow> is_running p)} \<le> card {k}"
    by (intro card_mono) simp_all
  then show ?thesis
    by (simp add: running_operations_def length_filter_conv_card)
qed

lemma serialised_logs:
  assumes inv: "serialised deps s k"
  shows "started s = [0..<length (started s)]"
    and "map fst (finished s) = [0..<length (finished s)]"
    and "length (finished s) \<le> length (started s)"
    and "length (started s) \<le> Suc (length (finished s))"
    and "length (started s) \<le> length (chain s)"
    and "i < length (finished s) \<Longrightarrow> finished s ! i = (i, written_reply deps (fst (chain s ! i)))"
proof -
  note st = serialised_started [OF inv] and fin = serialised_finished [OF inv]
    and len = serialised_length [OF inv]
  from fin have lf: "length (finished s) = k" by simp
  show "started s = [0..<length (started s)]"
    by (subst (2) st, subst st) simp
  show "map fst (finished s) = [0..<length (finished s)]"
    unfolding lf by (subst fin) (simp add: comp_def)
  show "length (finished s) \<le> length (started s)"
    unfolding lf by (subst st) simp
  show "length (started s) \<le> Suc (length (finished s))"
    unfolding lf by (subst st) simp
  show "length (started s) \<le> length (chain s)"
    using len by (subst st) auto
  show "finished s ! i = (i, written_reply deps (fst (chain s ! i)))" if "i < length (finished s)"
    using that unfolding lf by (subst fin) simp
qed


lemma first_active_Some:
  "first_active ps = Some i \<Longrightarrow> i < length ps \<and> (ps ! i = Scheduled \<or> is_running (ps ! i))"
  by (induction ps arbitrary: i rule: first_active.induct) auto

lemma first_active_None:
  "first_active ps = None \<Longrightarrow> p \<in> set ps \<Longrightarrow> p \<noteq> Scheduled \<and> \<not> is_running p"
  by (induction ps rule: first_active.induct) auto

lemma serialised_first_active:
  assumes inv: "serialised deps s k" and k: "k < length (chain s)"
  shows "first_active (map snd (chain s)) = Some k"
proof (cases "first_active (map snd (chain s))")
  case None
  from k have "snd (chain s ! k) \<in> set (map snd (chain s))" by simp
  from first_active_None [OF None this] serialised_frontier [OF inv k] show ?thesis by simp
next
  case (Some i)
  from first_active_Some [OF Some]
  have "i < length (chain s)" and "snd (chain s ! i) = Scheduled \<or> is_running (snd (chain s ! i))"
    by auto
  from serialised_active [OF inv this] Some show ?thesis by simp
qed

lemma serialised_all_settled:
  assumes inv: "serialised deps s (length (chain s))"
  shows "next_event s = None" and "list_all (\<lambda>(t, p). is_settled p) (chain s)"
proof -
  show settled: "list_all (\<lambda>(t, p). is_settled p) (chain s)"
    using serialised_settled [OF inv] by (auto simp: list_all_length case_prod_unfold)
  show "next_event s = None"
  proof (cases "first_active (map snd (chain s))")
    case None
    then show ?thesis by (simp add: next_event_def)
  next
    case (Some i)
    from first_active_Some [OF Some]
    have i: "i < length (chain s)" and "snd (chain s ! i) = Scheduled \<or> is_running (snd (chain s ! i))"
      by auto
    moreover from serialised_settled [OF inv i] have "is_settled (snd (chain s ! i))" .
    ultimately show ?thesis by (cases "snd (chain s ! i)") auto
  qed
qed

lemma sum_list_map_update:
  "k < length xs \<Longrightarrow> sum_list (map f (xs[k := v])) + f (xs ! k) = sum_list (map f xs) + (f v :: nat)"
proof (induction xs arbitrary: k)
  case Nil
  then show ?case by simp
next
  case (Cons x xs)
  show ?case
  proof (cases k)
    case 0
    then show ?thesis by simp
  next
    case (Suc k')
    with Cons.prems have "k' < length xs" by simp
    from Cons.IH [OF this] Suc show ?thesis by simp
  qed
qed

lemma work_left_start:
  assumes "k < length (chain s)" "snd (chain s ! k) = Scheduled"
  shows "Suc (sum_list (map moves_left ((chain s)[k := (fst (chain s ! k), Running (task_awaits (fst (chain s ! k))))])))
         = work_left s"
proof -
  from assms(2) have "moves_left (chain s ! k) = task_awaits (fst (chain s ! k)) + 2"
    by (cases "chain s ! k") simp
  with sum_list_map_update [OF assms(1), of moves_left
      "(fst (chain s ! k), Running (task_awaits (fst (chain s ! k))))"]
  show ?thesis by (simp add: work_left_def)
qed

lemma work_left_resume:
  assumes "k < length (chain s)" "snd (chain s ! k) = Running (Suc n)"
  shows "Suc (sum_list (map moves_left ((chain s)[k := (fst (chain s ! k), Running n)]))) = work_left s"
proof -
  from assms(2) have "moves_left (chain s ! k) = Suc n + 1"
    by (cases "chain s ! k") simp
  with sum_list_map_update [OF assms(1), of moves_left "(fst (chain s ! k), Running n)"]
  show ?thesis by (simp add: work_left_def)
qed

lemma work_left_settle:
  assumes k: "k < length (chain s)" and ph: "snd (chain s ! k) = Running 0"
  shows "Suc (work_left (settle deps k s)) = work_left s"
proof -
  let ?t = "fst (chain s ! k)"
  let ?settled = "(chain s)[k := (?t, Settled (if task_write_fails ?t then Rejected else Fulfilled))]"
  from ph have "moves_left (chain s ! k) = 1"
    by (cases "chain s ! k") simp
  with sum_list_map_update [OF k, of moves_left
      "(?t, Settled (if task_write_fails ?t then Rejected else Fulfilled))"]
  have settled_sum: "Suc (sum_list (map moves_left ?settled)) = work_left s"
    by (simp add: work_left_def)
  have "sum_list (map moves_left (chain (settle deps k s))) = sum_list (map moves_left ?settled)"
  proof (cases "Suc k < length (chain s) \<and> snd (?settled ! Suc k) = Waiting")
    case False
    then show ?thesis by (auto simp: settle_def Let_def)
  next
    case True
    then have sk: "Suc k < length ?settled" by simp
    from True have before: "moves_left (?settled ! Suc k) = task_awaits (fst (?settled ! Suc k)) + 2"
      by (cases "?settled ! Suc k") simp
    from True have "chain (settle deps k s) = ?settled[Suc k := (fst (?settled ! Suc k), Scheduled)]"
      by (simp add: settle_def Let_def)
    with sum_list_map_update [OF sk, of moves_left "(fst (?settled ! Suc k), Scheduled)"] before
    show ?thesis by simp
  qed
  with settled_sum show ?thesis by (simp add: work_left_def)
qed

lemma serialised_move:
  assumes inv: "serialised deps s k" and k: "k < length (chain s)"
  shows "\<exists>e s' k'. next_event s = Some e \<and> step deps e s = Some s' \<and> serialised deps s' k'
           \<and> Suc (work_left s') = work_left s"
proof -
  note first = serialised_first_active [OF inv k]
  let ?t = "fst (chain s ! k)"
  show ?thesis
  proof (cases "snd (chain s ! k)")
    case Waiting
    with serialised_frontier [OF inv k] show ?thesis by simp
  next
    case (Settled outcome)
    with serialised_frontier [OF inv k] show ?thesis by simp
  next
    case Scheduled
    let ?s' = "s\<lparr>chain := (chain s)[k := (?t, Running (task_awaits ?t))], started := started s @ [k]\<rparr>"
    from Scheduled first have ne: "next_event s = Some (Start k)" by (simp add: next_event_def)
    from Scheduled k have st: "step deps (Start k) s = Some ?s'" by simp
    from work_left_start [OF k Scheduled] have "Suc (work_left ?s') = work_left s"
      by (simp add: work_left_def)
    with ne st serialised_start [OF inv st] show ?thesis by blast
  next
    case (Running n)
    show ?thesis
    proof (cases n)
      case 0
      with Running have ph: "snd (chain s ! k) = Running 0" by simp
      from ph first have ne: "next_event s = Some (Finish k)" by (simp add: next_event_def)
      from ph k have st: "step deps (Finish k) s = Some (settle deps k s)" by simp
      from ne st serialised_finish [OF inv st] work_left_settle [OF k ph] show ?thesis by blast
    next
      case (Suc m)
      with Running have ph: "snd (chain s ! k) = Running (Suc m)" by simp
      let ?s' = "s\<lparr>chain := (chain s)[k := (?t, Running m)]\<rparr>"
      from ph first have ne: "next_event s = Some (Resume k)" by (simp add: next_event_def)
      from ph k have st: "step deps (Resume k) s = Some ?s'" by simp
      from work_left_resume [OF k ph] have "Suc (work_left ?s') = work_left s"
        by (simp add: work_left_def)
      with ne st serialised_resume [OF inv st] show ?thesis by blast
    qed
  qed
qed

lemma drain_settles:
  "serialised deps s k \<Longrightarrow> work_left s \<le> fuel \<Longrightarrow>
   serialised deps (drain deps fuel s) (length (chain s))
   \<and> map fst (chain (drain deps fuel s)) = map fst (chain s)"
proof (induction fuel arbitrary: s k)
  case 0
  have "k = length (chain s)"
  proof (rule ccontr)
    assume "k \<noteq> length (chain s)"
    with serialised_length [OF "0.prems"(1)] have "k < length (chain s)" by simp
    from serialised_move [OF "0.prems"(1) this] "0.prems"(2) show False by auto
  qed
  with "0.prems"(1) show ?case by simp
next
  case (Suc fuel)
  show ?case
  proof (cases "k = length (chain s)")
    case True
    with Suc.prems(1) serialised_all_settled(1) [of deps s] show ?thesis by simp
  next
    case False
    with serialised_length [OF Suc.prems(1)] have "k < length (chain s)" by simp
    from serialised_move [OF Suc.prems(1) this] obtain e s' k'
      where ne: "next_event s = Some e" and st: "step deps e s = Some s'"
        and inv': "serialised deps s' k'" and less: "Suc (work_left s') = work_left s"
      by blast
    from ne have internal: "posted [e] = []"
      by (auto simp: next_event_def split: option.splits phase.splits nat.splits)
    from map_fst_step [OF st] internal have same: "map fst (chain s') = map fst (chain s)" by simp
    then have len: "length (chain s') = length (chain s)" by (metis length_map)
    from less Suc.prems(2) have "work_left s' \<le> fuel" by simp
    from Suc.IH [OF inv' this] ne st same len show ?thesis by simp
  qed
qed


lemma written_reply_caught:
  "run_command deps (task_body t) = Inl err \<Longrightarrow> \<not> task_write_fails t \<Longrightarrow>
   written_reply deps t =
     Some \<lparr>reply_status = 400, reply_success = False, reply_data = None,
           reply_error = Some (err_message err)\<rparr>"
  by (simp add: written_reply_def handle_command_def)

text \<open>
  C2: for every sequence of events that posts commands to the daemon and lets the event
  loop move, the chain holds the commands in submission order; at no point is more than
  one handler running; handlers are started and finished in submission order, each one
  started only after all earlier ones have finished, and the \<open>i\<close>-th reply is the one of
  the \<open>i\<close>-th command. A handler that throws is caught by its own \<open>catch\<close> (the reply is
  the 400 reply), and neither that nor a handler whose promise rejects stalls the queue:
  left alone for \<open>work_left\<close> moves, the event loop settles every link and every posted
  command has been handled, in order.
\<close>

theorem daemon_queue_serialised:
  "run deps events empty_queue = Some s \<longrightarrow>
     map fst (chain s) = posted events
     \<and> running_operations s \<le> 1
     \<and> started s = [0..<length (started s)]
     \<and> map fst (finished s) = [0..<length (finished s)]
     \<and> length (finished s) \<le> length (started s)
     \<and> length (started s) \<le> Suc (length (finished s))
     \<and> length (started s) \<le> length (posted events)
     \<and> (\<forall>i<length (finished s). finished s ! i = (i, written_reply deps (posted events ! i)))
     \<and> (run_command deps (task_body t) = Inl err \<and> \<not> task_write_fails t \<longrightarrow>
          written_reply deps t =
            Some \<lparr>reply_status = 400, reply_success = False, reply_data = None,
                  reply_error = Some (err_message err)\<rparr>)
     \<and> list_all (\<lambda>(t, p). is_settled p) (chain (drain deps (work_left s) s))
     \<and> started (drain deps (work_left s) s) = [0..<length (posted events)]
     \<and> finished (drain deps (work_left s) s) =
          map (\<lambda>i. (i, written_reply deps (posted events ! i))) [0..<length (posted events)]"
proof
  assume reach: "run deps events empty_queue = Some s"
  from serialised_run [OF serialised_empty reach] obtain k where inv: "serialised deps s k"
    by blast
  from map_fst_run [OF reach] have tasks: "map fst (chain s) = posted events"
    by (simp add: empty_queue_def)
  then have len: "length (chain s) = length (posted events)"
    by (metis length_map)
  have task: "fst (chain s ! i) = posted events ! i" if "i < length (chain s)" for i
    using that tasks by (metis nth_map)
  note logs = serialised_logs [OF inv]
  have replies: "\<forall>i<length (finished s). finished s ! i = (i, written_reply deps (posted events ! i))"
  proof (intro allI impI)
    fix i assume i: "i < length (finished s)"
    with logs(3,5) have "i < length (chain s)" by simp
    with logs(6) [OF i] task show "finished s ! i = (i, written_reply deps (posted events ! i))"
      by simp
  qed
  let ?end = "drain deps (work_left s) s"
  from drain_settles [OF inv order_refl]
  have inv_end: "serialised deps ?end (length (chain s))"
    and tasks_end: "map fst (chain ?end) = map fst (chain s)"
    by simp_all
  from tasks_end have len_end: "length (chain ?end) = length (chain s)"
    by (metis length_map)
  from inv_end len_end have full: "serialised deps ?end (length (chain ?end))" by simp
  have task_end: "fst (chain ?end ! i) = posted events ! i" if "i < length (chain s)" for i
    using that tasks tasks_end len_end by (metis nth_map)
  have settled: "list_all (\<lambda>(t, p). is_settled p) (chain ?end)"
    by (rule serialised_all_settled(2) [OF full])
  have started_end: "started ?end = [0..<length (posted events)]"
    using serialised_started [OF full] len len_end by simp
  have finished_end: "finished ?end =
      map (\<lambda>i. (i, written_reply deps (posted events ! i))) [0..<length (posted events)]"
  proof -
    have "finished ?end = map (\<lambda>i. (i, written_reply deps (fst (chain ?end ! i)))) [0..<length (chain s)]"
      by (rule serialised_finished [OF inv_end])
    also have "\<dots> = map (\<lambda>i. (i, written_reply deps (posted events ! i))) [0..<length (chain s)]"
      by (rule map_cong [OF refl]) (simp add: task_end)
    finally show ?thesis by (simp add: len)
  qed
  have caught: "run_command deps (task_body t) = Inl err \<and> \<not> task_write_fails t \<longrightarrow>
          written_reply deps t =
            Some \<lparr>reply_status = 400, reply_success = False, reply_data = None,
                  reply_error = Some (err_message err)\<rparr>"
    using written_reply_caught [of deps t err] by blast
  from logs(5) len have started_bound: "length (started s) \<le> length (posted events)" by simp
  show "map fst (chain s) = posted events
     \<and> running_operations s \<le> 1
     \<and> started s = [0..<length (started s)]
     \<and> map fst (finished s) = [0..<length (finished s)]
     \<and> length (finished s) \<le> length (started s)
     \<and> length (started s) \<le> Suc (length (finished s))
     \<and> length (started s) \<le> length (posted events)
     \<and> (\<forall>i<length (finished s). finished s ! i = (i, written_reply deps (posted events ! i)))
     \<and> (run_command deps (task_body t) = Inl err \<and> \<not> task_write_fails t \<longrightarrow>
          written_reply deps t =
            Some \<lparr>reply_status = 400, reply_success = False, reply_data = None,
                  reply_error = Some (err_message err)\<rparr>)
     \<and> list_all (\<lambda>(t, p). is_settled p) (chain (drain deps (work_left s) s))
     \<and> started (drain deps (work_left s) s) = [0..<length (posted events)]
     \<and> finished (drain deps (work_left s) s) =
          map (\<lambda>i. (i, written_reply deps (posted events ! i))) [0..<length (posted events)]"
    by (intro conjI tasks serialised_one_running [OF inv] logs(1) logs(2) logs(3) logs(4)
        started_bound replies caught settled started_end finished_end)
qed

lemma sample_replies:
  "written_reply recording_deps unknown_task =
     Some \<lparr>reply_status = 400, reply_success = False, reply_data = None,
           reply_error = Some ''unknown command: reboot''\<rparr>"
  "written_reply recording_deps search_task =
     Some \<lparr>reply_status = 200, reply_success = True,
           reply_data = Some (SearchData [\<lparr>result_title = ''isabelle'', result_link = [],
                                          result_snippet = ''5''\<rparr>]),
           reply_error = None\<rparr>"
  "written_reply recording_deps broken_task = None"
  by (simp_all add: written_reply_def handle_command_def run_command_def unknown_task_def
      search_task_def broken_task_def search_command_def recording_deps_def get_property.simps
      js_to_string_def js_truthy.simps Let_def Error_def five)

lemma sample_run:
  "\<exists>s. run recording_deps sample_events empty_queue = Some s \<and> started s = [0, 1]
       \<and> map fst (finished s) = [0] \<and> running_operations s = 1"
  by (simp add: sample_events_def empty_queue_def enqueue_def settle_def Let_def
      running_operations_def unknown_task_def search_task_def broken_task_def)


theorem daemon_queue_serialised_witness:
  "\<exists>s. run recording_deps sample_events empty_queue = Some s
       \<and> map fst (chain s) = [unknown_task, search_task, broken_task, search_task]
       \<and> running_operations s = 1
       \<and> started s = [0, 1]
       \<and> map fst (finished s) = [0]
       \<and> finished s ! 0 =
           (0, Some \<lparr>reply_status = 400, reply_success = False, reply_data = None,
                     reply_error = Some ''unknown command: reboot''\<rparr>)
       \<and> list_all (\<lambda>(t, p). is_settled p) (chain (drain recording_deps (work_left s) s))
       \<and> started (drain recording_deps (work_left s) s) = [0, 1, 2, 3]
       \<and> finished (drain recording_deps (work_left s) s) =
           [(0, Some \<lparr>reply_status = 400, reply_success = False, reply_data = None,
                      reply_error = Some ''unknown command: reboot''\<rparr>),
            (1, Some \<lparr>reply_status = 200, reply_success = True,
                      reply_data = Some (SearchData [\<lparr>result_title = ''isabelle'', result_link = [],
                                                     result_snippet = ''5''\<rparr>]),
                      reply_error = None\<rparr>),
            (2, None),
            (3, Some \<lparr>reply_status = 200, reply_success = True,
                      reply_data = Some (SearchData [\<lparr>result_title = ''isabelle'', result_link = [],
                                                     result_snippet = ''5''\<rparr>]),
                      reply_error = None\<rparr>)]"
proof -
  from sample_run obtain s where
    reach: "run recording_deps sample_events empty_queue = Some s"
    and began: "started s = [0, 1]" and ended: "map fst (finished s) = [0]"
    and busy: "running_operations s = 1"
    by (elim exE conjE)
  have sent: "posted sample_events = [unknown_task, search_task, broken_task, search_task]"
    by (simp add: sample_events_def)
  have upto: "[0..<4] = [0, 1, 2, 3]"
    by (simp add: upt_rec)
  note facts = daemon_queue_serialised [of recording_deps sample_events s, THEN mp, OF reach]
  have tasks: "map fst (chain s) = [unknown_task, search_task, broken_task, search_task]"
    using facts [THEN conjunct1] by (simp only: sent)
  from arg_cong [OF ended, of length] have one: "length (finished s) = 1"
    by simp
  note replies = facts [THEN conjunct2, THEN conjunct2, THEN conjunct2, THEN conjunct2, THEN conjunct2, THEN conjunct2, THEN conjunct2, THEN conjunct1]
  from replies [rule_format, of 0] one have first: "finished s ! 0 = (0, written_reply recording_deps unknown_task)"
    by (simp add: sent)
  note settled = facts [THEN conjunct2, THEN conjunct2, THEN conjunct2, THEN conjunct2, THEN conjunct2, THEN conjunct2, THEN conjunct2, THEN conjunct2, THEN conjunct2, THEN conjunct1]
  note began_all = facts [THEN conjunct2, THEN conjunct2, THEN conjunct2, THEN conjunct2, THEN conjunct2, THEN conjunct2, THEN conjunct2, THEN conjunct2, THEN conjunct2, THEN conjunct2, THEN conjunct1]
  note ended_all = facts [THEN conjunct2, THEN conjunct2, THEN conjunct2, THEN conjunct2, THEN conjunct2, THEN conjunct2, THEN conjunct2, THEN conjunct2, THEN conjunct2, THEN conjunct2, THEN conjunct2]
  show ?thesis
    apply (rule exI [of _ s])
    apply (intro conjI reach tasks busy began ended settled)
    apply (simp add: first sample_replies)
    apply (simp add: began_all sent upto)
    apply (simp add: ended_all sent upto sample_replies)
    done
qed

end
